theory Spec2Isabelle
  imports Main "HOL-Library.Word" "HOL-Library.Sublist"
begin

section \<open>Strings of the program\<close>

text \<open>
  A JavaScript string is a sequence of 16-bit code units. The program's text operations
  (\<open>replace\<close>, \<open>split\<close>, \<open>join\<close>, \<open>trim\<close>, \<open>startsWith\<close>) all work on code
  units, so a string is a list of 16-bit words.
\<close>

type_synonym jsstring = "16 word list"

definition LF :: "16 word" where
  "LF = 10"

definition CR :: "16 word" where
  "CR = 13"

text \<open>An ASCII literal of the source, as code units.\<close>

definition js :: "string \<Rightarrow> jsstring" where
  "js s = map (\<lambda>c. of_nat (of_char c)) s"

text \<open>
  The constant \<open>STAMP_PREFIX\<close> of the source: four CJK characters and a colon, the code
  units U+672C U+5468 U+8BB0 U+5F55 U+003A.
\<close>

definition STAMP_PREFIX :: jsstring where
  "STAMP_PREFIX = [0x672C, 0x5468, 0x8BB0, 0x5F55, 0x3A]"

text \<open>
  \<^verbatim>\<open>content.replace(/\r\n/g, "\n")\<close>: every match of CR LF, found from left to right
  without overlap, becomes LF.
\<close>

fun replace_crlf :: "jsstring \<Rightarrow> jsstring" where
  "replace_crlf (a # b # cs) =
     (if a = CR \<and> b = LF then LF # replace_crlf cs else a # replace_crlf (b # cs))"
| "replace_crlf [a] = [a]"
| "replace_crlf [] = []"

text \<open>
  \<^verbatim>\<open>s.split("\n")\<close>: the pieces between the line feeds. The result is never empty; the
  empty string gives one empty piece, and a string that ends with a line feed gives a last
  piece that is empty. A code unit other than the line feed joins the first piece of the
  rest; the rest always has a first piece, so the case of no piece is never taken.
\<close>

fun split_nl :: "jsstring \<Rightarrow> jsstring list" where
  "split_nl [] = [[]]"
| "split_nl (c # cs) =
     (if c = LF then [] # split_nl cs
      else (case split_nl cs of l # ls \<Rightarrow> (c # l) # ls | [] \<Rightarrow> [[c]]))"

text \<open>\<^verbatim>\<open>lines.join("\n")\<close>.\<close>

fun join_nl :: "jsstring list \<Rightarrow> jsstring" where
  "join_nl [] = []"
| "join_nl [l] = l"
| "join_nl (l # m # ls) = l @ LF # join_nl (m # ls)"

text \<open>
  The code units that \<open>trim\<close> removes: the WhiteSpace and LineTerminator productions of
  ECMAScript.
\<close>

definition is_js_space :: "16 word \<Rightarrow> bool" where
  "is_js_space c \<longleftrightarrow>
     c = 0x09 \<or> c = 0x0A \<or> c = 0x0B \<or> c = 0x0C \<or> c = 0x0D \<or> c = 0x20 \<or> c = 0xA0 \<or>
     c = 0x1680 \<or> (0x2000 \<le> c \<and> c \<le> 0x200A) \<or> c = 0x2028 \<or> c = 0x2029 \<or>
     c = 0x202F \<or> c = 0x205F \<or> c = 0x3000 \<or> c = 0xFEFF"

text \<open>\<^verbatim>\<open>s.trim()\<close>: without the white space at both ends.\<close>

definition trim :: "jsstring \<Rightarrow> jsstring" where
  "trim s = rev (dropWhile is_js_space (rev (dropWhile is_js_space s)))"

text \<open>\<^verbatim>\<open>s.startsWith(p)\<close>.\<close>

definition startsWith :: "jsstring \<Rightarrow> jsstring \<Rightarrow> bool" where
  "startsWith s p \<longleftrightarrow> take (length p) s = p"

section \<open>The marker patcher\<close>

text \<open>
  The loop of \<open>applyStamp\<close> that walks back over blank lines:
  \<^verbatim>\<open>while (lastIndex >= 0 && lines[lastIndex].trim() === "") { lastIndex--; }\<close>
  The index is an integer, since it ends at \<open>-1\<close> when every line is blank.
\<close>

function skip_blank :: "jsstring list \<Rightarrow> int \<Rightarrow> int" where
  "skip_blank lines lastIndex =
     (if lastIndex \<ge> 0 \<and> trim (lines ! nat lastIndex) = []
      then skip_blank lines (lastIndex - 1)
      else lastIndex)"
  by pat_completeness auto
termination
  by (relation "measure (\<lambda>(lines, lastIndex). nat (lastIndex + 1))") auto

text \<open>
  \<^verbatim>\<open>
  function applyStamp(content, stampLine) {
    const lines = content.replace(/\r\n/g, "\n").split("\n");
    if (lines.length === 0) { return stampLine + "\n"; }
    let lastIndex = lines.length - 1;
    while (lastIndex >= 0 && lines[lastIndex].trim() === "") { lastIndex--; }
    if (lastIndex >= 0 && lines[lastIndex].startsWith(STAMP_PREFIX)) {
      lines[lastIndex] = stampLine;
    } else {
      lines.push(stampLine);
    }
    return lines.join("\n") + "\n";
  }
  \<close>
  Every index read lies inside the array: the loop starts at the last index and stops
  below zero.
\<close>

definition applyStamp :: "jsstring \<Rightarrow> jsstring \<Rightarrow> jsstring" where
  "applyStamp content stampLine =
     (let lines = split_nl (replace_crlf content) in
      if length lines = 0 then stampLine @ [LF]
      else
        let lastIndex = skip_blank lines (int (length lines) - 1);
            lines' = (if lastIndex \<ge> 0 \<and> startsWith (lines ! nat lastIndex) STAMP_PREFIX
                      then lines[nat lastIndex := stampLine]
                      else lines @ [stampLine])
        in join_nl lines' @ [LF])"

text \<open>
  The recursive equation of the loop is used one step at a time, never as a rewrite rule.
\<close>

declare skip_blank.simps [simp del]

section \<open>Dates\<close>

text \<open>
  A \<open>Date\<close> object holds a time value: the milliseconds since 1970-01-01T00:00:00Z, an
  integer. The methods the program calls are the abstract operations of ECMAScript on time
  values, written out here. The clock of a run lies far inside the range of valid time
  values, so the range check that ends every constructor and setter is left out.
\<close>

definition msPerDay :: int where
  "msPerDay = 86400000"

definition Day :: "int \<Rightarrow> int" where
  "Day t = t div msPerDay"

definition TimeWithinDay :: "int \<Rightarrow> int" where
  "TimeWithinDay t = t mod msPerDay"

text \<open>The number of the first day of year \<open>y\<close>, and whether \<open>y\<close> is a leap year.\<close>

definition DayFromYear :: "int \<Rightarrow> int" where
  "DayFromYear y =
     365 * (y - 1970) + (y - 1969) div 4 - (y - 1901) div 100 + (y - 1601) div 400"

definition leap_year :: "int \<Rightarrow> bool" where
  "leap_year y \<longleftrightarrow> (y mod 4 = 0 \<and> y mod 100 \<noteq> 0) \<or> y mod 400 = 0"

text \<open>
  The year of a day is the largest \<open>y\<close> whose first day is not after it. The search goes
  up from a year that is not after the day.
\<close>

function year_search :: "int \<Rightarrow> int \<Rightarrow> int" where
  "year_search y d = (if DayFromYear (y + 1) \<le> d then year_search (y + 1) d else y)"
  by pat_completeness auto
termination
proof (relation "measure (\<lambda>(y, d). nat (d - DayFromYear (y + 1) + 1))")
  show "wf (measure (\<lambda>(y, d). nat (d - DayFromYear (y + 1) + 1)))"
    by simp
next
  fix y d :: int
  assume le: "DayFromYear (y + 1) \<le> d"
  have a: "(y + 1 - 1969) div 4 \<le> (y + 1 + 1 - 1969) div 4"
    by (rule zdiv_mono1) simp_all
  have "(y + 1 + 1 - 1901) div 100 \<le> (y + 1 - 1901 + 100) div 100"
    by (rule zdiv_mono1) simp_all
  then have b: "(y + 1 + 1 - 1901) div 100 \<le> (y + 1 - 1901) div 100 + 1"
    by simp
  have c: "(y + 1 - 1601) div 400 \<le> (y + 1 + 1 - 1601) div 400"
    by (rule zdiv_mono1) simp_all
  have step: "u \<le> u' \<Longrightarrow> v' \<le> v + 1 \<Longrightarrow> w \<le> w' \<Longrightarrow>
      365 * (y + 1 - 1970) + u - v + w < 365 * (y + 1 + 1 - 1970) + u' - v' + w'"
    for u v w u' v' w' :: int
    by arith
  have "DayFromYear (y + 1) < DayFromYear (y + 1 + 1)"
    unfolding DayFromYear_def by (rule step [OF a b c])
  with le show "((y + 1, d), (y, d)) \<in> measure (\<lambda>(y, d). nat (d - DayFromYear (y + 1) + 1))"
    by simp
qed

declare year_search.simps [simp del]

definition YearFromDay :: "int \<Rightarrow> int" where
  "YearFromDay d = year_search (1970 + (if 0 \<le> d then d div 366 else d div 365)) d"

definition YearFromTime :: "int \<Rightarrow> int" where
  "YearFromTime t = YearFromDay (Day t)"

definition DayWithinYear :: "int \<Rightarrow> int" where
  "DayWithinYear t = Day t - DayFromYear (YearFromTime t)"

definition InLeapYear :: "int \<Rightarrow> int" where
  "InLeapYear t = (if leap_year (YearFromTime t) then 1 else 0)"

text \<open>
  The day within the year on which month \<open>m\<close> (0 to 11) starts; \<open>l\<close> is 1 in a leap year
  and 0 otherwise.
\<close>

definition month_start :: "int \<Rightarrow> int \<Rightarrow> int" where
  "month_start m l =
     (if m = 0 then 0 else if m = 1 then 31 else if m = 2 then 59 + l
      else if m = 3 then 90 + l else if m = 4 then 120 + l else if m = 5 then 151 + l
      else if m = 6 then 181 + l else if m = 7 then 212 + l else if m = 8 then 243 + l
      else if m = 9 then 273 + l else if m = 10 then 304 + l else 334 + l)"

definition MonthFromTime :: "int \<Rightarrow> int" where
  "MonthFromTime t =
     (let d = DayWithinYear t; l = InLeapYear t in
      if d < 31 then 0 else if d < 59 + l then 1 else if d < 90 + l then 2
      else if d < 120 + l then 3 else if d < 151 + l then 4 else if d < 181 + l then 5
      else if d < 212 + l then 6 else if d < 243 + l then 7 else if d < 273 + l then 8
      else if d < 304 + l then 9 else if d < 334 + l then 10 else 11)"

definition DateFromTime :: "int \<Rightarrow> int" where
  "DateFromTime t = DayWithinYear t - month_start (MonthFromTime t) (InLeapYear t) + 1"

text \<open>Sunday is 0; 1970-01-01 was a Thursday.\<close>

definition WeekDay :: "int \<Rightarrow> int" where
  "WeekDay t = (Day t + 4) mod 7"

text \<open>
  \<open>MakeDay\<close>: the day number of the first of the month, moved by \<open>date - 1\<close> days; a month
  outside 0 to 11 carries into the year.
\<close>

definition MakeDay :: "int \<Rightarrow> int \<Rightarrow> int \<Rightarrow> int" where
  "MakeDay year month date =
     (let ym = year + month div 12; mn = month mod 12 in
      DayFromYear ym + month_start mn (if leap_year ym then 1 else 0) + date - 1)"

definition MakeDate :: "int \<Rightarrow> int \<Rightarrow> int" where
  "MakeDate day time = day * msPerDay + time"

text \<open>The methods of \<open>Date\<close> that the program calls, on the time value of the object.\<close>

definition getUTCDay :: "int \<Rightarrow> int" where
  "getUTCDay t = WeekDay t"

definition getUTCDate :: "int \<Rightarrow> int" where
  "getUTCDate t = DateFromTime t"

definition getUTCMonth :: "int \<Rightarrow> int" where
  "getUTCMonth t = MonthFromTime t"

definition getUTCFullYear :: "int \<Rightarrow> int" where
  "getUTCFullYear t = YearFromTime t"

definition setUTCDate :: "int \<Rightarrow> int \<Rightarrow> int" where
  "setUTCDate t dt = MakeDate (MakeDay (YearFromTime t) (MonthFromTime t) dt) (TimeWithinDay t)"

text \<open>\<open>Date.UTC(year, month, date)\<close>: a year from 0 to 99 stands for 1900 plus that year.\<close>

definition Date_UTC :: "int \<Rightarrow> int \<Rightarrow> int \<Rightarrow> int" where
  "Date_UTC year month date =
     MakeDate (MakeDay (if 0 \<le> year \<and> year \<le> 99 then 1900 + year else year) month date) 0"

section \<open>Numbers as text\<close>

text \<open>
  \<open>String(n)\<close> of an integer: its decimal digits, with a minus sign when negative. (The
  numbers of the program are years, months, days, weeks and status codes, far below the
  size where JavaScript switches to an exponent.)
\<close>

definition digit :: "nat \<Rightarrow> 16 word" where
  "digit n = of_nat (48 + n)"

fun digits_of :: "nat \<Rightarrow> jsstring" where
  "digits_of n = (if n < 10 then [digit n] else digits_of (n div 10) @ [digit (n mod 10)])"

declare digits_of.simps [simp del]

definition String_int :: "int \<Rightarrow> jsstring" where
  "String_int i = (if i < 0 then js ''-'' @ digits_of (nat (- i)) else digits_of (nat i))"

text \<open>\<open>s.padStart(2, "0")\<close>.\<close>

definition padStart2 :: "jsstring \<Rightarrow> jsstring" where
  "padStart2 s = replicate (2 - length s) (digit 0) @ s"

section \<open>The week stamp\<close>

text \<open>
  \<^verbatim>\<open>
  function getISOWeek(date) {
    const d = new Date(Date.UTC(date.getUTCFullYear(), date.getUTCMonth(), date.getUTCDate()));
    const dayNum = d.getUTCDay() || 7;
    d.setUTCDate(d.getUTCDate() + 4 - dayNum);
    const isoYear = d.getUTCFullYear();
    const yearStart = new Date(Date.UTC(isoYear, 0, 1));
    const week = Math.ceil(((d - yearStart) / 86400000 + 1) / 7);
    return { isoYear, isoWeek: week };
  }
  \<close>
  Both dates are midnights, so their difference is a whole number of days; the quotient by
  7 of a whole number, rounded up, is the integer ceiling. The function returns the pair
  of the year and the week.
\<close>

definition getISOWeek :: "int \<Rightarrow> int \<times> int" where
  "getISOWeek date =
     (let d = Date_UTC (getUTCFullYear date) (getUTCMonth date) (getUTCDate date);
          dayNum = (if getUTCDay d = 0 then 7 else getUTCDay d);
          d = setUTCDate d (getUTCDate d + 4 - dayNum);
          isoYear = getUTCFullYear d;
          yearStart = Date_UTC isoYear 0 1;
          week = - ((- ((d - yearStart) div 86400000 + 1)) div 7)
      in (isoYear, week))"

text \<open>
  The first lines of \<open>calcThisWeekStamp\<close>: the Sunday of the week of \<open>now\<close>.
  \<^verbatim>\<open>
    const sunday = new Date(now);
    const day = sunday.getUTCDay();
    const diff = (7 - day) % 7;
    sunday.setUTCDate(sunday.getUTCDate() + diff);
  \<close>
\<close>

definition thisWeekSunday :: "int \<Rightarrow> int" where
  "thisWeekSunday now =
     (let sunday = now;
          day = getUTCDay sunday;
          diff = (7 - day) mod 7
      in setUTCDate sunday (getUTCDate sunday + diff))"

record stamp_info =
  sundayStr :: jsstring
  isoYear :: int
  isoWeek :: int
  stampText :: jsstring

text \<open>The date of a time value as \<open>YYYY-MM-DD\<close>, the way the template of the source builds it.\<close>

definition date_text :: "int \<Rightarrow> jsstring" where
  "date_text t =
     (let year = getUTCFullYear t;
          month = padStart2 (String_int (getUTCMonth t + 1));
          date = padStart2 (String_int (getUTCDate t))
      in String_int year @ js ''-'' @ month @ js ''-'' @ date)"

text \<open>
  \<open>calcThisWeekStamp\<close>, with the reading of the clock (\<open>new Date()\<close>) as its argument.
  The label is the marker token, a space, the date, a middle dot between spaces, the ISO
  year, the two code units U+5E74 U+7B2C, the ISO week and U+5468.
\<close>

definition calcThisWeekStamp :: "int \<Rightarrow> stamp_info" where
  "calcThisWeekStamp now =
     (let sunday = thisWeekSunday now;
          sundayStr = date_text sunday;
          (isoYear, isoWeek) = getISOWeek sunday;
          stampText = STAMP_PREFIX @ js '' '' @ sundayStr @ js '' '' @ [0xB7] @ js '' '' @
            String_int isoYear @ [0x5E74, 0x7B2C] @ String_int isoWeek @ [0x5468]
      in \<lparr>sundayStr = sundayStr, isoYear = isoYear, isoWeek = isoWeek,
          stampText = stampText\<rparr>)"

section \<open>The remote service and the platform\<close>

text \<open>
  What the program throws. \<open>Error m\<close> is \<^verbatim>\<open>new Error(m)\<close>, thrown by the program itself;
  \<open>Thrown s\<close> is an exception of the platform (a rejected \<open>fetch\<close>, a body that is not
  JSON, a \<open>TypeError\<close>, a failure of \<open>atob\<close>), with the text that \<open>String\<close> gives it.
\<close>

datatype error = Error jsstring | Thrown jsstring

fun String_err :: "error \<Rightarrow> jsstring" where
  "String_err (Error m) = js ''Error: '' @ m"
| "String_err (Thrown s) = s"

text \<open>
  The objects of the service that the program reads: of a repository \<open>owner.login\<close> and
  \<open>name\<close>; of a README \<open>sha\<close>, \<open>path\<close> and \<open>content\<close>.
\<close>

record repo =
  repo_owner_login :: jsstring
  repo_name :: jsstring

record readme_data =
  readme_sha :: jsstring
  readme_path :: jsstring
  readme_content :: jsstring

datatype payload = RepoList "repo list" | Readme readme_data | OtherJson

text \<open>
  A response: its status, what \<open>res.text()\<close> gives and what \<open>res.json()\<close> gives or throws.
  \<open>res.ok\<close> is a status from 200 to 299.
\<close>

record response =
  res_status :: nat
  res_text :: jsstring
  res_json :: "error + payload"

definition res_ok :: "response \<Rightarrow> bool" where
  "res_ok res \<longleftrightarrow> 200 \<le> res_status res \<and> res_status res \<le> 299"

text \<open>
  The three requests of the program, by what varies in them (the fixed headers and the
  rendering of the URL and of the JSON body are left out):
  \<^item> \<open>GET /user/repos?per_page=..&page=..\<close> with the token;
  \<^item> \<open>GET /repos/owner/repo/readme\<close> with the token;
  \<^item> \<open>PUT /repos/owner/repo/contents/path\<close> with the token and the body's \<open>message\<close>,
    \<open>content\<close> and \<open>sha\<close>.
\<close>

datatype request =
  ListRepos jsstring nat nat
| GetReadme jsstring jsstring jsstring
| PutContents jsstring jsstring jsstring jsstring jsstring jsstring jsstring

text \<open>
  The platform of a run. \<open>fetch\<close> answers a request, given the requests made before it (so
  a write can change a later answer), or throws. The codecs are the built-in \<open>atob\<close>,
  \<open>btoa\<close>, \<open>TextEncoder.encode\<close>, \<open>TextDecoder.decode\<close> and \<open>encodeURIComponent\<close>.
\<close>

record platform =
  fetch :: "request list \<Rightarrow> request \<Rightarrow> error + response"
  atob :: "jsstring \<Rightarrow> error + jsstring"
  btoa :: "jsstring \<Rightarrow> error + jsstring"
  utf8_encode :: "jsstring \<Rightarrow> 8 word list"
  utf8_decode :: "8 word list \<Rightarrow> jsstring"
  encodeURIComponent :: "jsstring \<Rightarrow> error + jsstring"

text \<open>
  \<^verbatim>\<open>
  function toBase64(str) {
    const bytes = new TextEncoder().encode(str);
    let binary = "";
    for (let i = 0; i < bytes.length; i++) { binary += String.fromCharCode(bytes[i]); }
    return btoa(binary);
  }
  function fromBase64(b64) {
    const binary = atob(b64.replace(/\n/g, ""));
    const bytes = new Uint8Array(binary.length);
    for (let i = 0; i < binary.length; i++) { bytes[i] = binary.charCodeAt(i); }
    return new TextDecoder("utf-8").decode(bytes);
  }
  \<close>
  Each loop copies one sequence into another, element by element: a map. A byte becomes
  the code unit of the same value; a code unit stored in a byte array keeps its low 8 bits.
\<close>

definition toBase64 :: "platform \<Rightarrow> jsstring \<Rightarrow> error + jsstring" where
  "toBase64 P str =
     (let bytes = utf8_encode P str;
          binary = map ucast bytes
      in btoa P binary)"

definition fromBase64 :: "platform \<Rightarrow> jsstring \<Rightarrow> error + jsstring" where
  "fromBase64 P b64 =
     (case atob P (filter (\<lambda>c. c \<noteq> LF) b64) of
        Inl e \<Rightarrow> Inl e
      | Inr binary \<Rightarrow> Inr (utf8_decode P (map ucast binary)))"

text \<open>The texts of the errors of the source, as code units.\<close>

definition MSG_NO_TOKEN :: jsstring where
  "MSG_NO_TOKEN =
     [0x7F3A, 0x5C11] @ js '' GITHUB_TOKEN'' @ [0xFF0C, 0x8BF7, 0x5728] @
     js '' Cloudflare Workers '' @ [0x4E2D, 0x914D, 0x7F6E] @ js '' Secret'' @ [0x3002]"

definition MSG_LIST_FAILED :: jsstring where
  "MSG_LIST_FAILED = [0x83B7, 0x53D6, 0x4ED3, 0x5E93, 0x5931, 0x8D25] @ js '': ''"

definition MSG_README_FAILED :: jsstring where
  "MSG_README_FAILED = [0x83B7, 0x53D6] @ js '' README '' @ [0x5931, 0x8D25] @ js '': ''"

definition MSG_UPDATE_FAILED :: jsstring where
  "MSG_UPDATE_FAILED = [0x66F4, 0x65B0] @ js '' README '' @ [0x5931, 0x8D25] @ js '': ''"

text \<open>The error of a response that is not ok: the message, the status, a space, the body.\<close>

definition http_error :: "jsstring \<Rightarrow> response \<Rightarrow> error" where
  "http_error msg res =
     Error (msg @ String_int (int (res_status res)) @ js '' '' @ res_text res)"

section \<open>Listing the repositories\<close>

text \<open>
  \<open>await res.json()\<close> where the program goes on to use the value as an array of
  repositories: a value of another shape makes the spread of \<open>push\<close> throw.
\<close>

definition json_repos :: "response \<Rightarrow> error + repo list" where
  "json_repos res =
     (case res_json res of
        Inl e \<Rightarrow> Inl e
      | Inr (RepoList batch) \<Rightarrow> Inr batch
      | Inr _ \<Rightarrow> Inl (Thrown (js ''TypeError'')))"

definition perPage :: nat where
  "perPage = 100"

text \<open>
  \<^verbatim>\<open>
  async function fetchAllRepos(token) {
    let page = 1;
    const perPage = 100;
    const repos = [];
    while (true) {
      const res = await fetch(url(perPage, page), headers(token));
      if (!res.ok) {
        const text = await res.text();
        throw new Error(`<LIST FAILED>: ${res.status} ${text}`);
      }
      const batch = await res.json();
      repos.push(...batch);
      if (batch.length < perPage) break;
      page++;
    }
    return repos;
  }
  \<close>
  The loop has no bound of its own: it ends when the service sends a short page or an
  error. The model returns \<open>None\<close> when it never ends, and otherwise the result with the
  requests made so far, in order.
\<close>

partial_function (option) fetchAllRepos_loop ::
  "platform \<Rightarrow> jsstring \<Rightarrow> nat \<Rightarrow> repo list \<Rightarrow> request list \<Rightarrow>
   ((error + repo list) \<times> request list) option" where
  "fetchAllRepos_loop P token page repos log =
     (let req = ListRepos token perPage page;
          log' = log @ [req]
      in case fetch P log req of
           Inl e \<Rightarrow> Some (Inl e, log')
         | Inr res \<Rightarrow>
             if \<not> res_ok res then Some (Inl (http_error MSG_LIST_FAILED res), log')
             else (case json_repos res of
                     Inl e \<Rightarrow> Some (Inl e, log')
                   | Inr batch \<Rightarrow>
                       let repos' = repos @ batch
                       in if length batch < perPage then Some (Inr repos', log')
                          else fetchAllRepos_loop P token (page + 1) repos' log'))"

definition fetchAllRepos ::
  "platform \<Rightarrow> jsstring \<Rightarrow> request list \<Rightarrow> ((error + repo list) \<times> request list) option" where
  "fetchAllRepos P token log = fetchAllRepos_loop P token 1 [] log"

section \<open>Updating one README\<close>

text \<open>\<open>await readmeRes.json()\<close>, used as the README object.\<close>

definition json_readme :: "response \<Rightarrow> error + readme_data" where
  "json_readme res =
     (case res_json res of
        Inl e \<Rightarrow> Inl e
      | Inr (Readme data) \<Rightarrow> Inr data
      | Inr _ \<Rightarrow> Inl (Thrown (js ''TypeError'')))"

text \<open>The commit message: \<^verbatim>\<open>`chore: update weekly stamp (${stampInfo.sundayStr})`\<close>.\<close>

definition commit_message :: "stamp_info \<Rightarrow> jsstring" where
  "commit_message stampInfo = js ''chore: update weekly stamp ('' @ sundayStr stampInfo @ js '')''"

text \<open>
  \<^verbatim>\<open>
  async function updateReadmeForRepo(token, owner, repo, stampInfo) {
    const readmeRes = await fetch(readme_url(owner, repo), headers(token));
    if (readmeRes.status === 404) { return false; }
    if (!readmeRes.ok) {
      const text = await readmeRes.text();
      throw new Error(`<README FAILED>: ${readmeRes.status} ${text}`);
    }
    const readmeData = await readmeRes.json();
    const sha = readmeData.sha;
    const path = readmeData.path;
    const originalContent = fromBase64(readmeData.content);
    const newContent = applyStamp(originalContent, stampInfo.stampText);
    if (newContent === originalContent) { return false; }
    const updateRes = await fetch(contents_url(owner, repo, encodeURIComponent(path)),
      { method: "PUT", headers: headers(token),
        body: JSON.stringify({ message: commit_message, content: toBase64(newContent), sha }) });
    if (!updateRes.ok) {
      const text = await updateRes.text();
      throw new Error(`<UPDATE FAILED>: ${updateRes.status} ${text}`);
    }
    return true;
  }
  \<close>
  The result is what the function returns or throws, with the requests made so far.
\<close>

definition updateReadmeForRepo ::
  "platform \<Rightarrow> jsstring \<Rightarrow> jsstring \<Rightarrow> jsstring \<Rightarrow> stamp_info \<Rightarrow> request list \<Rightarrow>
   (error + bool) \<times> request list" where
  "updateReadmeForRepo P token owner repo stampInfo log =
     (let get = GetReadme token owner repo;
          log1 = log @ [get]
      in case fetch P log get of
           Inl e \<Rightarrow> (Inl e, log1)
         | Inr readmeRes \<Rightarrow>
             if res_status readmeRes = 404 then (Inr False, log1)
             else if \<not> res_ok readmeRes then (Inl (http_error MSG_README_FAILED readmeRes), log1)
             else
               (case json_readme readmeRes of
                  Inl e \<Rightarrow> (Inl e, log1)
                | Inr readmeData \<Rightarrow>
                    (case fromBase64 P (readme_content readmeData) of
                       Inl e \<Rightarrow> (Inl e, log1)
                     | Inr originalContent \<Rightarrow>
                         let newContent = applyStamp originalContent (stampText stampInfo)
                         in if newContent = originalContent then (Inr False, log1)
                            else
                              (case encodeURIComponent P (readme_path readmeData) of
                                 Inl e \<Rightarrow> (Inl e, log1)
                               | Inr path \<Rightarrow>
                                   (case toBase64 P newContent of
                                      Inl e \<Rightarrow> (Inl e, log1)
                                    | Inr content \<Rightarrow>
                                        let put = PutContents token owner repo path
                                              (commit_message stampInfo) content
                                              (readme_sha readmeData);
                                            log2 = log1 @ [put]
                                        in case fetch P log1 put of
                                             Inl e \<Rightarrow> (Inl e, log2)
                                           | Inr updateRes \<Rightarrow>
                                               if \<not> res_ok updateRes
                                               then (Inl (http_error MSG_UPDATE_FAILED updateRes),
                                                     log2)
                                               else (Inr True, log2))))))"

section \<open>The orchestrator\<close>

record summary_entry =
  entry_repo :: jsstring
  entry_status :: jsstring
  entry_error :: "jsstring option"

record run_result =
  run_stampInfo :: stamp_info
  run_summary :: "summary_entry list"

record env =
  GITHUB_TOKEN :: "jsstring option"

text \<open>
  The object that one turn of the loop pushes: from the \<open>try\<close> block when the updater
  returned, from the \<open>catch\<close> block when it threw.
\<close>

definition summary_of :: "jsstring \<Rightarrow> jsstring \<Rightarrow> error + bool \<Rightarrow> summary_entry" where
  "summary_of owner name result =
     (case result of
        Inr updated \<Rightarrow>
          \<lparr>entry_repo = owner @ js ''/'' @ name,
           entry_status = (if updated then js ''updated'' else js ''skipped''),
           entry_error = None\<rparr>
      | Inl err \<Rightarrow>
          \<lparr>entry_repo = owner @ js ''/'' @ name,
           entry_status = js ''error'',
           entry_error = Some (String_err err)\<rparr>)"

text \<open>
  \<^verbatim>\<open>
  for (const repo of repos) {
    const owner = repo.owner.login;
    const name = repo.name;
    try {
      const updated = await updateReadmeForRepo(token, owner, name, stampInfo);
      summary.push({ repo: `${owner}/${name}`, status: updated ? "updated" : "skipped" });
    } catch (err) {
      summary.push({ repo: `${owner}/${name}`, status: "error", error: String(err) });
    }
  }
  \<close>
\<close>

fun update_loop ::
  "platform \<Rightarrow> jsstring \<Rightarrow> stamp_info \<Rightarrow> repo list \<Rightarrow> summary_entry list \<Rightarrow> request list \<Rightarrow>
   summary_entry list \<times> request list" where
  "update_loop P token stampInfo [] summary log = (summary, log)"
| "update_loop P token stampInfo (repo # repos) summary log =
     (let owner = repo_owner_login repo;
          name = repo_name repo;
          (result, log') = updateReadmeForRepo P token owner name stampInfo log
      in update_loop P token stampInfo repos (summary @ [summary_of owner name result]) log')"

text \<open>
  \<^verbatim>\<open>
  async function updateAllRepos(env) {
    const token = env.GITHUB_TOKEN;
    if (!token) { throw new Error("<NO TOKEN>"); }
    const stampInfo = calcThisWeekStamp();
    const repos = await fetchAllRepos(token);
    const summary = [];
    for (const repo of repos) { ... }
    return { stampInfo, summary };
  }
  \<close>
  A token that is missing or empty is falsy. The reading of the clock is the argument
  \<open>now\<close>. The run starts with no request made.
\<close>

definition updateAllRepos ::
  "platform \<Rightarrow> int \<Rightarrow> env \<Rightarrow> ((error + run_result) \<times> request list) option" where
  "updateAllRepos P now env =
     (case GITHUB_TOKEN env of
        None \<Rightarrow> Some (Inl (Error MSG_NO_TOKEN), [])
      | Some token \<Rightarrow>
          if token = [] then Some (Inl (Error MSG_NO_TOKEN), [])
          else
            let stampInfo = calcThisWeekStamp now
            in case fetchAllRepos P token [] of
                 None \<Rightarrow> None
               | Some (Inl e, log) \<Rightarrow> Some (Inl e, log)
               | Some (Inr repos, log) \<Rightarrow>
                   (case update_loop P token stampInfo repos [] log of
                      (summary, log') \<Rightarrow>
                        Some (Inr \<lparr>run_stampInfo = stampInfo, run_summary = summary\<rparr>, log')))"

section \<open>Notions used to state the properties of the patcher\<close>

text \<open>The lines of a document as the patcher reads them: after the CR LF replacement.\<close>

definition lines_of :: "jsstring \<Rightarrow> jsstring list" where
  "lines_of d = split_nl (replace_crlf d)"

text \<open>A marker line starts with the marker token; a blank line trims to the empty string.\<close>

definition is_marker :: "jsstring \<Rightarrow> bool" where
  "is_marker l \<longleftrightarrow> startsWith l STAMP_PREFIX"

definition is_blank :: "jsstring \<Rightarrow> bool" where
  "is_blank l \<longleftrightarrow> trim l = []"

text \<open>The index where the loop of \<open>applyStamp\<close> stops: the last non-blank line, or \<open>-1\<close>.\<close>

definition last_nonblank :: "jsstring list \<Rightarrow> int" where
  "last_nonblank ls = skip_blank ls (int (length ls) - 1)"

text \<open>The number of marker lines among some lines.\<close>

definition marker_count :: "jsstring list \<Rightarrow> nat" where
  "marker_count ls = length (filter is_marker ls)"

text \<open>No line before the last non-blank line is a marker line.\<close>

definition marker_only_last :: "jsstring list \<Rightarrow> bool" where
  "marker_only_last ls \<longleftrightarrow> \<not> list_ex is_marker (take (nat (last_nonblank ls)) ls)"

text \<open>A label as the week stamp produces it: it starts with the marker token and is one line.\<close>

definition label_ok :: "jsstring \<Rightarrow> bool" where
  "label_ok L \<longleftrightarrow> is_marker L \<and> LF \<notin> set L"

text \<open>The number of line feeds of a text.\<close>

definition count_lf :: "jsstring \<Rightarrow> nat" where
  "count_lf s = length (filter (\<lambda>c. c = LF) s)"

text \<open>A line without one carriage return at its end, if it has one.\<close>

fun chomp :: "jsstring \<Rightarrow> jsstring" where
  "chomp [] = []"
| "chomp [c] = (if c = CR then [] else [c])"
| "chomp (c # d # s) = c # chomp (d # s)"

section \<open>Example documents and labels\<close>

text \<open>
  Two lines, each ended by a line feed; a document whose last line is an older stamp; a
  document whose first line is a stamp and whose last line is not.
\<close>

definition doc_two_lines :: jsstring where
  "doc_two_lines = js ''line1'' @ [LF] @ js ''line2'' @ [LF]"

definition doc_stamped :: jsstring where
  "doc_stamped = js ''line1'' @ [LF] @ STAMP_PREFIX @ js '' old'' @ [LF]"

definition doc_marker_inside :: jsstring where
  "doc_marker_inside = STAMP_PREFIX @ js '' old'' @ [LF] @ js ''line2''"

text \<open>
  The labels of the first ISO week of 2024 and of 2025: the marker token, the date of the
  Sunday, a middle dot (U+00B7), the year, U+5E74 U+7B2C, the week and U+5468.
\<close>

definition label_2024_w1 :: jsstring where
  "label_2024_w1 =
     STAMP_PREFIX @ js '' 2024-01-07 '' @ [0xB7] @ js '' 2024'' @ [0x5E74, 0x7B2C] @ js ''1'' @
     [0x5468]"

definition label_2025_w1 :: jsstring where
  "label_2025_w1 =
     STAMP_PREFIX @ js '' 2025-01-05 '' @ [0xB7] @ js '' 2025'' @ [0x5E74, 0x7B2C] @ js ''1'' @
     [0x5468]"

section \<open>Notions used to state the properties of the service calls\<close>

text \<open>
  The requests for the pages 1 to \<open>n\<close>; the answer to the request for page \<open>p\<close> when the
  pages before it have been requested, after the requests of \<open>log\<close>; and what the listing
  loop reads from an answer.
\<close>

definition list_requests :: "jsstring \<Rightarrow> nat \<Rightarrow> request list" where
  "list_requests token n = map (ListRepos token perPage) [1..<Suc n]"

definition page_response :: "platform \<Rightarrow> jsstring \<Rightarrow> request list \<Rightarrow> nat \<Rightarrow> error + response" where
  "page_response P token log p =
     fetch P (log @ list_requests token (p - 1)) (ListRepos token perPage p)"

definition page_batch :: "error + response \<Rightarrow> repo list" where
  "page_batch r =
     (case r of
        Inl e \<Rightarrow> []
      | Inr res \<Rightarrow> (case json_repos res of Inl e \<Rightarrow> [] | Inr batch \<Rightarrow> batch))"

definition full_page :: "error + response \<Rightarrow> bool" where
  "full_page r \<longleftrightarrow>
     (case r of
        Inl e \<Rightarrow> False
      | Inr res \<Rightarrow>
          res_ok res \<and>
          (case json_repos res of Inl e \<Rightarrow> False | Inr batch \<Rightarrow> perPage \<le> length batch))"

definition short_page :: "error + response \<Rightarrow> bool" where
  "short_page r \<longleftrightarrow>
     (case r of
        Inl e \<Rightarrow> False
      | Inr res \<Rightarrow>
          res_ok res \<and>
          (case json_repos res of Inl e \<Rightarrow> False | Inr batch \<Rightarrow> length batch < perPage))"

definition failed_page :: "error + response \<Rightarrow> bool" where
  "failed_page r \<longleftrightarrow> (case r of Inl e \<Rightarrow> False | Inr res \<Rightarrow> \<not> res_ok res)"

definition page_error :: "error + response \<Rightarrow> error" where
  "page_error r = (case r of Inl e \<Rightarrow> e | Inr res \<Rightarrow> http_error MSG_LIST_FAILED res)"

text \<open>The results of the updater for the repositories of a list, in order.\<close>

fun updater_results ::
  "platform \<Rightarrow> jsstring \<Rightarrow> stamp_info \<Rightarrow> repo list \<Rightarrow> request list \<Rightarrow> (error + bool) list" where
  "updater_results P token stampInfo [] log = []"
| "updater_results P token stampInfo (repo # repos) log =
     (case updateReadmeForRepo P token (repo_owner_login repo) (repo_name repo) stampInfo log of
        (result, log') \<Rightarrow> result # updater_results P token stampInfo repos log')"

text \<open>The entry of the summary for a repository and the result of its updater.\<close>

definition entry_for :: "repo \<Rightarrow> error + bool \<Rightarrow> summary_entry" where
  "entry_for repo result = summary_of (repo_owner_login repo) (repo_name repo) result"

section \<open>An example service\<close>

text \<open>
  Three repositories of one owner. Two have a README, the third has none (404); a write
  to the second is refused with a conflict (409). The README is sent the way the service
  sends it, in base64 with a line feed after every 60 characters and at the end.
\<close>

definition repo_alpha :: repo where
  "repo_alpha = \<lparr>repo_owner_login = js ''octo'', repo_name = js ''alpha''\<rparr>"

definition repo_beta :: repo where
  "repo_beta = \<lparr>repo_owner_login = js ''octo'', repo_name = js ''beta''\<rparr>"

definition repo_gamma :: repo where
  "repo_gamma = \<lparr>repo_owner_login = js ''octo'', repo_name = js ''gamma''\<rparr>"

definition ok_json :: "payload \<Rightarrow> response" where
  "ok_json p = \<lparr>res_status = 200, res_text = [], res_json = Inr p\<rparr>"

definition example_fetch :: "jsstring \<Rightarrow> request list \<Rightarrow> request \<Rightarrow> error + response" where
  "example_fetch content log req =
     (case req of
        ListRepos token per_page page \<Rightarrow>
          Inr (ok_json (RepoList [repo_alpha, repo_beta, repo_gamma]))
      | GetReadme token owner repo \<Rightarrow>
          if repo = js ''gamma''
          then Inr \<lparr>res_status = 404, res_text = js ''Not Found'', res_json = Inr OtherJson\<rparr>
          else Inr (ok_json (Readme \<lparr>readme_sha = js ''3b18e5'', readme_path = js ''README.md'',
                  readme_content = content\<rparr>))
      | PutContents token owner repo path message content' sha \<Rightarrow>
          if repo = js ''beta''
          then Inr \<lparr>res_status = 409, res_text = js ''conflict'', res_json = Inr OtherJson\<rparr>
          else Inr (ok_json OtherJson))"

text \<open>
  Two READMEs for the example: one whose last line is already the label of the first week
  of 2024, and one of two plain lines (\<open>doc_two_lines\<close>); as text, as UTF-8 and in base64.
\<close>

definition ascii_bytes :: "string \<Rightarrow> 8 word list" where
  "ascii_bytes s = map (\<lambda>c. of_nat (of_char c)) s"

definition label_2024_w1_utf8 :: "8 word list" where
  "label_2024_w1_utf8 =
     [230, 156, 172, 229, 145, 168, 232, 174, 176, 229, 189, 149] @
     ascii_bytes '': 2024-01-07 '' @ [194, 183] @ ascii_bytes '' 2024'' @
     [229, 185, 180, 231, 172, 172] @ ascii_bytes ''1'' @ [229, 145, 168]"

definition readme_stamped :: jsstring where
  "readme_stamped = js ''line1'' @ [LF] @ label_2024_w1 @ [LF]"

definition readme_stamped_utf8 :: "8 word list" where
  "readme_stamped_utf8 = ascii_bytes ''line1'' @ [10] @ label_2024_w1_utf8 @ [10]"

definition readme_stamped_b64 :: jsstring where
  "readme_stamped_b64 =
     js ''bGluZTEK5pys5ZGo6K6w5b2VOiAyMDI0LTAxLTA3IMK3IDIwMjTlubTnrKwx'' @ [LF] @
     js ''5ZGoCg=='' @ [LF]"

definition readme_plain_utf8 :: "8 word list" where
  "readme_plain_utf8 = ascii_bytes ''line1'' @ [10] @ ascii_bytes ''line2'' @ [10]"

definition readme_plain_b64 :: jsstring where
  "readme_plain_b64 = js ''bGluZTEKbGluZTIK'' @ [LF]"

text \<open>What the patcher makes of the two, as text, as UTF-8 and in base64.\<close>

definition stamped_new :: jsstring where
  "stamped_new = js ''line1'' @ [LF] @ label_2024_w1 @ [LF, LF]"

definition stamped_new_utf8 :: "8 word list" where
  "stamped_new_utf8 = ascii_bytes ''line1'' @ [10] @ label_2024_w1_utf8 @ [10, 10]"

definition stamped_new_b64 :: jsstring where
  "stamped_new_b64 =
     js ''bGluZTEK5pys5ZGo6K6w5b2VOiAyMDI0LTAxLTA3IMK3IDIwMjTlubTnrKwx5ZGoCgo=''"

definition plain_new :: jsstring where
  "plain_new = doc_two_lines @ [LF] @ label_2024_w1 @ [LF]"

definition plain_new_utf8 :: "8 word list" where
  "plain_new_utf8 = readme_plain_utf8 @ [10] @ label_2024_w1_utf8 @ [10]"

definition plain_new_b64 :: jsstring where
  "plain_new_b64 =
     js ''bGluZTEKbGluZTIKCuacrOWRqOiusOW9lTogMjAyNC0wMS0wNyDCtyAyMDI05bm056ysMeWRqAo=''"

text \<open>
  The codecs of the example, on the texts above: what the built-in functions give on
  them. On anything else \<open>atob\<close>, \<open>btoa\<close> and \<open>encodeURIComponent\<close> throw here.
\<close>

definition example_atob :: "jsstring \<Rightarrow> error + jsstring" where
  "example_atob s =
     (if s = filter (\<lambda>c. c \<noteq> LF) readme_stamped_b64 then Inr (map ucast readme_stamped_utf8)
      else if s = filter (\<lambda>c. c \<noteq> LF) readme_plain_b64 then Inr (map ucast readme_plain_utf8)
      else Inl (Thrown (js ''InvalidCharacterError'')))"

definition example_decode :: "8 word list \<Rightarrow> jsstring" where
  "example_decode bytes =
     (if bytes = readme_stamped_utf8 then readme_stamped
      else if bytes = readme_plain_utf8 then doc_two_lines
      else [])"

definition example_encode :: "jsstring \<Rightarrow> 8 word list" where
  "example_encode s =
     (if s = stamped_new then stamped_new_utf8
      else if s = plain_new then plain_new_utf8
      else [])"

definition example_btoa :: "jsstring \<Rightarrow> error + jsstring" where
  "example_btoa s =
     (if s = map ucast stamped_new_utf8 then Inr stamped_new_b64
      else if s = map ucast plain_new_utf8 then Inr plain_new_b64
      else Inl (Thrown (js ''InvalidCharacterError'')))"

definition example_platform :: "jsstring \<Rightarrow> platform" where
  "example_platform content =
     \<lparr>fetch = example_fetch content, atob = example_atob, btoa = example_btoa,
      utf8_encode = example_encode, utf8_decode = example_decode,
      encodeURIComponent = (\<lambda>s. if s = js ''README.md'' then Inr s
                                  else Inl (Thrown (js ''URIError'')))\<rparr>"

text \<open>
  A service with 101 repositories, sent as a page of 100 and a page of one; and a service
  whose listing fails with status 500.
\<close>

definition paged_platform :: platform where
  "paged_platform =
     example_platform readme_plain_b64
       \<lparr>fetch := (\<lambda>log req.
          case req of
            ListRepos token per_page page \<Rightarrow>
              if page = 1 then Inr (ok_json (RepoList (replicate 100 repo_alpha)))
              else Inr (ok_json (RepoList [repo_beta]))
          | _ \<Rightarrow> Inl (Thrown (js ''TypeError: fetch failed'')))\<rparr>"

definition failing_platform :: platform where
  "failing_platform =
     example_platform readme_plain_b64
       \<lparr>fetch := (\<lambda>log req.
          Inr \<lparr>res_status = 500, res_text = js ''Server Error'', res_json = Inr OtherJson\<rparr>)\<rparr>"

text \<open>The stamp of the first week of 2024 and its commit message.\<close>

definition stamp_2024_w1 :: stamp_info where
  "stamp_2024_w1 =
     \<lparr>sundayStr = js ''2024-01-07'', isoYear = 2024, isoWeek = 1, stampText = label_2024_w1\<rparr>"

definition example_message :: jsstring where
  "example_message = js ''chore: update weekly stamp (2024-01-07)''"

text \<open>The token and the environment of the examples.\<close>

definition example_token :: jsstring where
  "example_token = js ''ghp_example''"

definition example_env :: env where
  "example_env = \<lparr>GITHUB_TOKEN = Some example_token\<rparr>"

section \<open>Properties of the text operations\<close>

lemma split_nl_ne [simp]: "split_nl s \<noteq> []"
  by (induction s) (auto split: list.splits)

lemma length_split_nl: "length (split_nl s) = Suc (count_lf s)"
  by (induction s) (auto simp: count_lf_def split: list.splits)

lemma join_split_nl: "join_nl (split_nl s) = s"
proof (induction s)
  case Nil
  show ?case by simp
next
  case (Cons c cs)
  obtain l ls where sp: "split_nl cs = l # ls"
    by (cases "split_nl cs") auto
  show ?case
  proof (cases "c = LF")
    case True
    with Cons sp show ?thesis by simp
  next
    case False
    with Cons sp show ?thesis by (cases ls) auto
  qed
qed

lemma split_nl_append: "split_nl (a @ LF # b) = split_nl a @ split_nl b"
proof (induction a)
  case Nil
  show ?case by simp
next
  case (Cons c cs)
  obtain l ls where sp: "split_nl cs = l # ls"
    by (cases "split_nl cs") auto
  with Cons show ?case by auto
qed
lemma split_nl_line: "LF \<notin> set l \<Longrightarrow> split_nl l = [l]"
  by (induction l) auto

lemma split_nl_no_lf: "l \<in> set (split_nl s) \<Longrightarrow> LF \<notin> set l"
proof (induction s arbitrary: l)
  case Nil
  then show ?case by simp
next
  case (Cons c cs)
  obtain m ms where sp: "split_nl cs = m # ms"
    by (cases "split_nl cs") auto
  from Cons sp show ?case by (auto split: if_splits)
qed

lemma count_lf_append: "count_lf (a @ b) = count_lf a + count_lf b"
  by (simp add: count_lf_def)

lemma count_lf_join_nl: "length ls \<le> Suc (count_lf (join_nl ls))"
  by (induction ls rule: join_nl.induct) (auto simp: count_lf_def)

lemma split_join_lines:
  "ls \<noteq> [] \<Longrightarrow> split_nl (join_nl ls) = concat (map split_nl ls)"
proof (induction ls rule: join_nl.induct)
  case 1
  then show ?case by simp
next
  case (2 l)
  show ?case by simp
next
  case (3 l m ls)
  then show ?case by (simp add: split_nl_append)
qed

lemma concat_split_lines:
  "\<forall>l \<in> set ls. LF \<notin> set l \<Longrightarrow> concat (map split_nl ls) = ls"
  by (induction ls) (auto simp: split_nl_line)
lemma count_lf_replace_crlf: "count_lf (replace_crlf s) = count_lf s"
  by (induction s rule: replace_crlf.induct) (auto simp: count_lf_def LF_def CR_def)

lemma applyStamp_lines:
  "\<exists>ls'. applyStamp d L = join_nl ls' @ [LF] \<and> length (split_nl (replace_crlf d)) \<le> length ls'"
  by (auto simp: applyStamp_def Let_def)

lemma applyStamp_changes: "applyStamp d L \<noteq> d"
proof
  assume eq: "applyStamp d L = d"
  obtain ls' where r: "applyStamp d L = join_nl ls' @ [LF]"
    and len: "length (split_nl (replace_crlf d)) \<le> length ls'"
    using applyStamp_lines by blast
  have "count_lf (applyStamp d L) = Suc (count_lf (join_nl ls'))"
    by (simp add: r count_lf_append) (simp add: count_lf_def)
  moreover have "length ls' \<le> Suc (count_lf (join_nl ls'))"
    by (rule count_lf_join_nl)
  moreover have "length (split_nl (replace_crlf d)) = Suc (count_lf d)"
    by (simp add: length_split_nl count_lf_replace_crlf)
  ultimately have "count_lf d < count_lf (applyStamp d L)"
    using len by linarith
  with eq show False by simp
qed

lemma is_blank_iff: "is_blank s \<longleftrightarrow> (\<forall>c \<in> set s. is_js_space c)"
proof -
  have "is_blank s \<longleftrightarrow> dropWhile is_js_space (rev (dropWhile is_js_space s)) = []"
    by (simp add: is_blank_def trim_def)
  also have "\<dots> \<longleftrightarrow> (\<forall>c \<in> set (dropWhile is_js_space s). is_js_space c)"
    by (simp add: dropWhile_eq_Nil_conv)
  also have "\<dots> \<longleftrightarrow> dropWhile is_js_space (dropWhile is_js_space s) = []"
    by (simp only: dropWhile_eq_Nil_conv)
  also have "\<dots> \<longleftrightarrow> dropWhile is_js_space s = []"
    by (simp only: dropWhile_idem)
  also have "\<dots> \<longleftrightarrow> (\<forall>c \<in> set s. is_js_space c)"
    by (simp only: dropWhile_eq_Nil_conv)
  finally show ?thesis .
qed

lemma skip_blank_take:
  "n \<le> length ls \<Longrightarrow>
   skip_blank ls (int n - 1) = int (length (dropWhile is_blank (rev (take n ls)))) - 1"
proof (induction n)
  case 0
  show ?case by (simp add: skip_blank.simps)
next
  case (Suc n)
  then have n: "n < length ls" by simp
  have t: "take (Suc n) ls = take n ls @ [ls ! n]"
    using n by (simp add: take_Suc_conv_app_nth)
  have "skip_blank ls (int (Suc n) - 1) = skip_blank ls (int n)" by simp
  also have "\<dots> = (if is_blank (ls ! n) then skip_blank ls (int n - 1) else int n)"
    by (subst skip_blank.simps) (simp add: is_blank_def)
  also have "\<dots> = int (length (dropWhile is_blank (rev (take (Suc n) ls)))) - 1"
    using Suc n by (simp add: t)
  finally show ?case .
qed

lemma last_nonblank_eq:
  "last_nonblank ls = int (length (dropWhile is_blank (rev ls))) - 1"
  using skip_blank_take [of "length ls" ls] by (simp add: last_nonblank_def)

lemma last_nonblank_decomp:
  "\<not> is_blank x \<Longrightarrow> \<forall>l \<in> set post. is_blank l \<Longrightarrow>
   last_nonblank (pre @ x # post) = int (length pre)"
proof -
  assume x: "\<not> is_blank x" and post: "\<forall>l \<in> set post. is_blank l"
  have "dropWhile is_blank (rev post @ x # rev pre) = dropWhile is_blank (x # rev pre)"
    using post by (intro dropWhile_append2) simp
  then show ?thesis
    using x by (simp add: last_nonblank_eq)
qed

lemma last_nonblank_all_blank:
  "\<forall>l \<in> set ls. is_blank l \<Longrightarrow> last_nonblank ls = - 1"
  by (simp add: last_nonblank_eq dropWhile_eq_Nil_conv [THEN iffD2])

lemma blank_decomp:
  "(\<forall>l \<in> set ls. is_blank l) \<or>
   (\<exists>pre x post. ls = pre @ x # post \<and> \<not> is_blank x \<and> (\<forall>l \<in> set post. is_blank l))"
proof (cases "\<exists>l \<in> set ls. \<not> is_blank l")
  case True
  from split_list_last_prop [OF True] show ?thesis by auto
next
  case False
  then show ?thesis by simp
qed

lemma applyStamp_unfold:
  "applyStamp d L =
     join_nl (if 0 \<le> last_nonblank (lines_of d) \<and>
                 is_marker (lines_of d ! nat (last_nonblank (lines_of d)))
              then (lines_of d)[nat (last_nonblank (lines_of d)) := L]
              else lines_of d @ [L]) @ [LF]"
  by (simp add: applyStamp_def Let_def lines_of_def last_nonblank_def is_marker_def)

lemma marker_not_blank: "is_marker l \<Longrightarrow> \<not> is_blank l"
proof
  assume m: "is_marker l" and b: "is_blank l"
  from m have "take (length STAMP_PREFIX) l = STAMP_PREFIX"
    by (simp add: is_marker_def startsWith_def)
  then have "set STAMP_PREFIX \<subseteq> set l"
    by (metis set_take_subset)
  then have "0x3A \<in> set l"
    by (auto simp: STAMP_PREFIX_def)
  with b have "is_js_space 0x3A"
    by (simp add: is_blank_iff)
  then show False
    by (simp add: is_js_space_def)
qed

text \<open>The three shapes of a document and what the patcher does in each.\<close>

lemma applyStamp_replace:
  assumes "lines_of d = pre @ x # post" "\<not> is_blank x" "\<forall>l \<in> set post. is_blank l"
    "is_marker x"
  shows "applyStamp d L = join_nl (pre @ L # post) @ [LF]"
  using assms by (simp add: applyStamp_unfold last_nonblank_decomp)

lemma applyStamp_append_nonmarker:
  assumes "lines_of d = pre @ x # post" "\<not> is_blank x" "\<forall>l \<in> set post. is_blank l"
    "\<not> is_marker x"
  shows "applyStamp d L = join_nl (lines_of d @ [L]) @ [LF]"
  using assms by (simp add: applyStamp_unfold last_nonblank_decomp)

lemma applyStamp_append_blank:
  assumes "\<forall>l \<in> set (lines_of d). is_blank l"
  shows "applyStamp d L = join_nl (lines_of d @ [L]) @ [LF]"
  using assms by (simp add: applyStamp_unfold last_nonblank_all_blank)

lemma lines_of_no_lf: "l \<in> set (lines_of d) \<Longrightarrow> LF \<notin> set l"
  by (simp add: lines_of_def split_nl_no_lf)

lemma split_join_end:
  "ls \<noteq> [] \<Longrightarrow> split_nl (join_nl ls @ [LF]) = concat (map split_nl ls) @ [[]]"
  using split_nl_append [of "join_nl ls" "[]"] by (simp add: split_join_lines)
lemma concat_lines_of: "set ls \<subseteq> set (lines_of d) \<Longrightarrow> concat (map split_nl ls) = ls"
  by (rule concat_split_lines) (auto dest: lines_of_no_lf)

lemma lines_of_ne: "lines_of d \<noteq> []"
  by (simp add: lines_of_def)

text \<open>The lines of the output, in the three shapes.\<close>

lemma out_replace:
  assumes "lines_of d = pre @ x # post" "\<not> is_blank x" "\<forall>l \<in> set post. is_blank l"
    "is_marker x"
  shows "split_nl (applyStamp d L) = pre @ split_nl L @ post @ [[]]"
proof -
  have pre: "concat (map split_nl pre) = pre" and post: "concat (map split_nl post) = post"
    using assms(1) concat_lines_of [of pre d] concat_lines_of [of post d] by auto
  have "split_nl (applyStamp d L) = concat (map split_nl (pre @ L # post)) @ [[]]"
    using assms by (simp add: applyStamp_replace split_join_end)
  then show ?thesis
    by (simp add: pre post)
qed

lemma out_append:
  assumes "applyStamp d L = join_nl (lines_of d @ [L]) @ [LF]"
  shows "split_nl (applyStamp d L) = lines_of d @ split_nl L @ [[]]"
proof -
  have "concat (map split_nl (lines_of d)) = lines_of d"
    using concat_lines_of [of "lines_of d" d] by simp
  then show ?thesis
    using assms by (simp add: split_join_end)
qed

lemma applyStamp_shape:
  "(\<exists>pre x post. lines_of d = pre @ x # post \<and> \<not> is_blank x \<and> (\<forall>l \<in> set post. is_blank l) \<and>
       is_marker x \<and> split_nl (applyStamp d L) = pre @ split_nl L @ post @ [[]]) \<or>
   (\<exists>pre x post. lines_of d = pre @ x # post \<and> \<not> is_blank x \<and> (\<forall>l \<in> set post. is_blank l) \<and>
       \<not> is_marker x \<and> split_nl (applyStamp d L) = lines_of d @ split_nl L @ [[]]) \<or>
   ((\<forall>l \<in> set (lines_of d). is_blank l) \<and>
       split_nl (applyStamp d L) = lines_of d @ split_nl L @ [[]])"
proof -
  consider (blank) "\<forall>l \<in> set (lines_of d). is_blank l"
    | (some) pre x post where "lines_of d = pre @ x # post" "\<not> is_blank x"
        "\<forall>l \<in> set post. is_blank l"
    using blank_decomp [of "lines_of d"] by blast
  then show ?thesis
  proof cases
    case blank
    then show ?thesis
      using out_append [OF applyStamp_append_blank] by blast
  next
    case some
    show ?thesis
    proof (cases "is_marker x")
      case True
      with some out_replace show ?thesis by blast
    next
      case False
      with some out_append [OF applyStamp_append_nonmarker] show ?thesis by blast
    qed
  qed
qed

lemma preserved:
  "subseq (filter (\<lambda>l. \<not> is_marker l) (lines_of d)) (split_nl (applyStamp d L))"
proof -
  let ?keep = "filter (\<lambda>l. \<not> is_marker l)"
  have app: "subseq (?keep (lines_of d)) (lines_of d @ split_nl L @ [[]])"
    by (rule list_emb_prefix) (rule subseq_filter_left)
  from applyStamp_shape [of d L] show ?thesis
  proof (elim disjE exE conjE)
    fix pre x post
    assume d: "lines_of d = pre @ x # post" and m: "is_marker x"
      and out: "split_nl (applyStamp d L) = pre @ split_nl L @ post @ [[]]"
    have "subseq (?keep pre @ ?keep post) (pre @ (split_nl L @ post @ [[]]))"
      by (intro list_emb_append_mono list_emb_append2 list_emb_prefix subseq_filter_left)
    then show ?thesis
      using d m out by simp
  next
    fix pre x post
    assume "split_nl (applyStamp d L) = lines_of d @ split_nl L @ [[]]"
    with app show ?thesis by simp
  next
    assume "split_nl (applyStamp d L) = lines_of d @ split_nl L @ [[]]"
    with app show ?thesis by simp
  qed
qed

lemma replace_crlf_Cons: "a \<noteq> CR \<Longrightarrow> replace_crlf (a # s) = a # replace_crlf s"
  by (cases s) auto

lemma replace_crlf_line:
  "LF \<notin> set l \<Longrightarrow> replace_crlf (l @ LF # r) = chomp l @ LF # replace_crlf r"
proof (induction l rule: chomp.induct)
  case 1
  have "LF \<noteq> CR" by (simp add: LF_def CR_def)
  then show ?case by (simp add: replace_crlf_Cons)
next
  case (2 c)
  have "LF \<noteq> CR" by (simp add: LF_def CR_def)
  then have "replace_crlf (LF # r) = LF # replace_crlf r"
    by (rule replace_crlf_Cons)
  then show ?case by simp
next
  case (3 c d s)
  then have "d \<noteq> LF" and "replace_crlf (d # s @ LF # r) = chomp (d # s) @ LF # replace_crlf r"
    by auto
  then show ?case by simp
qed

lemma chomp_no_lf: "LF \<notin> set l \<Longrightarrow> LF \<notin> set (chomp l)"
  by (induction l rule: chomp.induct) auto

lemma replace_crlf_join:
  "ls \<noteq> [] \<Longrightarrow> \<forall>l \<in> set ls. LF \<notin> set l \<Longrightarrow>
   replace_crlf (join_nl ls @ [LF]) = join_nl (map chomp ls) @ [LF]"
proof (induction ls rule: join_nl.induct)
  case 1
  then show ?case by simp
next
  case (2 l)
  then show ?case using replace_crlf_line [of l "[]"] by simp
next
  case (3 l m ls)
  then show ?case using replace_crlf_line [of l "join_nl (m # ls) @ [LF]"] by simp
qed

lemma lines_of_join:
  assumes "ls \<noteq> []" "\<forall>l \<in> set ls. LF \<notin> set l"
  shows "lines_of (join_nl ls @ [LF]) = map chomp ls @ [[]]"
proof -
  have "concat (map split_nl (map chomp ls)) = map chomp ls"
    using assms(2) by (intro concat_split_lines) (auto simp: chomp_no_lf)
  then show ?thesis
    using assms split_join_end [of "map chomp ls"] by (simp add: lines_of_def replace_crlf_join)
qed

lemma chomp_cases: "chomp l = l \<or> l = chomp l @ [CR]"
  by (induction l rule: chomp.induct) auto

lemma is_blank_chomp: "is_blank (chomp l) \<longleftrightarrow> is_blank l"
proof (cases "chomp l = l")
  case True
  then show ?thesis by simp
next
  case False
  have l: "l = chomp l @ [CR]"
    using False chomp_cases [of l] by simp
  have "is_js_space CR" by (simp add: is_js_space_def CR_def)
  then have "is_blank (chomp l @ [CR]) \<longleftrightarrow> is_blank (chomp l)"
    by (simp add: is_blank_iff)
  then show ?thesis
    by (metis l)
qed

lemma startsWith_snoc:
  assumes "c \<notin> set p"
  shows "startsWith (m @ [c]) p \<longleftrightarrow> startsWith m p"
proof (cases "length p \<le> length m")
  case True
  then show ?thesis by (simp add: startsWith_def)
next
  case False
  then have "take (length p) m \<noteq> p"
    by auto
  moreover have "take (length p) (m @ [c]) \<noteq> p"
  proof
    assume e: "take (length p) (m @ [c]) = p"
    from False have "take (length p) (m @ [c]) = m @ [c]" by simp
    with e have "p = m @ [c]" by simp
    then have "c \<in> set p" by simp
    with assms show False by simp
  qed
  ultimately show ?thesis by (simp add: startsWith_def)
qed

lemma is_marker_chomp: "is_marker (chomp l) \<longleftrightarrow> is_marker l"
proof -
  have "CR \<notin> set STAMP_PREFIX" by (simp add: STAMP_PREFIX_def CR_def)
  then have "startsWith (chomp l @ [CR]) STAMP_PREFIX \<longleftrightarrow> startsWith (chomp l) STAMP_PREFIX"
    by (rule startsWith_snoc)
  moreover have "chomp l = l \<or> l = chomp l @ [CR]"
    by (rule chomp_cases)
  ultimately show ?thesis
    unfolding is_marker_def by metis
qed
lemma no_marker_filter: "\<not> list_ex is_marker ls \<Longrightarrow> filter is_marker ls = []"
  by (induction ls) auto

lemma blank_no_marker: "\<forall>l \<in> set ls. is_blank l \<Longrightarrow> \<not> list_ex is_marker ls"
  by (auto simp: list_ex_iff dest: marker_not_blank)

lemma empty_not_marker: "\<not> is_marker []"
  by (simp add: is_marker_def startsWith_def STAMP_PREFIX_def)

lemma empty_blank: "is_blank []"
  by (simp add: is_blank_def trim_def)

lemma stamped_shape:
  assumes pre: "\<not> list_ex is_marker pre" and L: "label_ok L"
    and post: "\<forall>l \<in> set post. is_blank l"
    and nolf: "\<forall>l \<in> set (pre @ L # post). LF \<notin> set l"
    and r: "r = join_nl (pre @ L # post) @ [LF]"
  shows "marker_only_last (lines_of r) \<and> marker_count (split_nl r) = 1"
proof
  have m: "is_marker L" using L by (simp add: label_ok_def)
  have "lines_of r = map chomp (pre @ L # post) @ [[]]"
    unfolding r using nolf by (intro lines_of_join) simp_all
  then have shape: "lines_of r = map chomp pre @ chomp L # (map chomp post @ [[]])"
    by simp
  have nb: "\<not> is_blank (chomp L)"
    using m by (simp add: is_blank_chomp marker_not_blank)
  have bl: "\<forall>l \<in> set (map chomp post @ [[]]). is_blank l"
    using post by (auto simp: is_blank_chomp empty_blank)
  have "last_nonblank (lines_of r) = int (length (map chomp pre))"
    unfolding shape using nb bl by (rule last_nonblank_decomp)
  then have "take (nat (last_nonblank (lines_of r))) (lines_of r) = map chomp pre"
    by (simp add: shape)
  moreover have "\<not> list_ex is_marker (map chomp pre)"
    using pre by (simp add: list_ex_iff is_marker_chomp)
  ultimately show "marker_only_last (lines_of r)"
    by (simp add: marker_only_last_def)
next
  have m: "is_marker L" using L by (simp add: label_ok_def)
  have "concat (map split_nl (pre @ L # post)) = pre @ L # post"
    using nolf by (rule concat_split_lines)
  then have "split_nl r = pre @ L # post @ [[]]"
    unfolding r using split_join_end [of "pre @ L # post"] by simp
  moreover have "filter is_marker pre = []"
    using pre by (rule no_marker_filter)
  moreover have "filter is_marker post = []"
    using post by (intro no_marker_filter blank_no_marker)
  ultimately show "marker_count (split_nl r) = 1"
    using m by (simp add: marker_count_def empty_not_marker)
qed

lemma applyStamp_step:
  assumes inv: "marker_only_last (lines_of d)" and L: "label_ok L"
  shows "marker_only_last (lines_of (applyStamp d L)) \<and>
         marker_count (split_nl (applyStamp d L)) = 1"
proof -
  have Lnolf: "LF \<notin> set L" using L by (simp add: label_ok_def)
  have append: ?thesis
    if nm: "\<not> list_ex is_marker (lines_of d)"
      and r: "applyStamp d L = join_nl (lines_of d @ [L]) @ [LF]"
  proof -
    have "\<forall>l \<in> set (lines_of d @ L # []). LF \<notin> set l"
      using Lnolf by (auto dest: lines_of_no_lf)
    moreover have "applyStamp d L = join_nl (lines_of d @ L # []) @ [LF]"
      using r by simp
    ultimately show ?thesis
      using nm L by (intro stamped_shape [where pre = "lines_of d" and post = "[]"]) simp_all
  qed
  consider (blank) "\<forall>l \<in> set (lines_of d). is_blank l"
    | (some) pre x post where "lines_of d = pre @ x # post" "\<not> is_blank x"
        "\<forall>l \<in> set post. is_blank l"
    using blank_decomp [of "lines_of d"] by blast
  then show ?thesis
  proof cases
    case blank
    then show ?thesis
      by (intro append blank_no_marker applyStamp_append_blank)
  next
    case some
    have "last_nonblank (lines_of d) = int (length pre)"
      unfolding some(1) using some(2,3) by (rule last_nonblank_decomp)
    then have pre: "\<not> list_ex is_marker pre"
      using inv by (simp add: marker_only_last_def some(1))
    have post: "\<not> list_ex is_marker post"
      using some(3) by (rule blank_no_marker)
    show ?thesis
    proof (cases "is_marker x")
      case True
      have "\<forall>l \<in> set (pre @ L # post). LF \<notin> set l"
        using Lnolf some(1) lines_of_no_lf [of _ d] by auto
      moreover have "applyStamp d L = join_nl (pre @ L # post) @ [LF]"
        using some True by (rule applyStamp_replace)
      ultimately show ?thesis
        using pre L some(3) by (intro stamped_shape) simp_all
    next
      case False
      have "\<not> list_ex is_marker (lines_of d)"
        using pre post False by (auto simp: some(1) list_ex_iff)
      moreover have "applyStamp d L = join_nl (lines_of d @ [L]) @ [LF]"
        using some False by (rule applyStamp_append_nonmarker)
      ultimately show ?thesis by (rule append)
    qed
  qed
qed

lemma applyStamp_fold:
  "marker_only_last (lines_of d) \<Longrightarrow> list_all label_ok Ls \<Longrightarrow> Ls \<noteq> [] \<Longrightarrow>
   marker_only_last (lines_of (foldl applyStamp d Ls)) \<and>
   marker_count (split_nl (foldl applyStamp d Ls)) = 1"
proof (induction Ls arbitrary: d)
  case Nil
  then show ?case by simp
next
  case (Cons L Ls)
  then have step: "marker_only_last (lines_of (applyStamp d L)) \<and>
         marker_count (split_nl (applyStamp d L)) = 1"
    by (intro applyStamp_step) simp_all
  show ?case
  proof (cases "Ls = []")
    case True
    with step show ?thesis by simp
  next
    case False
    with Cons step show ?thesis by simp
  qed
qed

section \<open>The example documents\<close>

lemma lines_doc_two_lines: "lines_of doc_two_lines = [js ''line1'', js ''line2'', []]"
  by (simp add: lines_of_def doc_two_lines_def js_def LF_def CR_def)

lemma lines_doc_stamped: "lines_of doc_stamped = [js ''line1'', STAMP_PREFIX @ js '' old'', []]"
  by (simp add: lines_of_def doc_stamped_def js_def LF_def CR_def STAMP_PREFIX_def)

lemma lines_doc_marker_inside:
  "lines_of doc_marker_inside = [STAMP_PREFIX @ js '' old'', js ''line2'']"
  by (simp add: lines_of_def doc_marker_inside_def js_def LF_def CR_def STAMP_PREFIX_def)

lemma line1_not_marker: "\<not> is_marker (js ''line1'')"
  by (simp add: is_marker_def startsWith_def js_def STAMP_PREFIX_def)

lemma line2_not_blank: "\<not> is_blank (js ''line2'')"
  by (simp add: is_blank_iff js_def is_js_space_def)

lemma line2_not_marker: "\<not> is_marker (js ''line2'')"
  by (simp add: is_marker_def startsWith_def js_def STAMP_PREFIX_def)

lemma prefix_marker: "is_marker (STAMP_PREFIX @ s)"
  by (simp add: is_marker_def startsWith_def)

lemma label_2024_w1_ok: "label_ok label_2024_w1"
proof -
  have "LF \<notin> set label_2024_w1"
    by (simp add: label_2024_w1_def STAMP_PREFIX_def js_def LF_def)
  then show ?thesis
    by (simp add: label_ok_def) (simp add: label_2024_w1_def prefix_marker)
qed

lemma label_2025_w1_ok: "label_ok label_2025_w1"
proof -
  have "LF \<notin> set label_2025_w1"
    by (simp add: label_2025_w1_def STAMP_PREFIX_def js_def LF_def)
  then show ?thesis
    by (simp add: label_ok_def) (simp add: label_2025_w1_def prefix_marker)
qed

lemma doc_stamped_marker_only_last: "marker_only_last (lines_of doc_stamped)"
proof -
  have "last_nonblank ([js ''line1''] @ (STAMP_PREFIX @ js '' old'') # [[]]) =
        int (length [js ''line1''])"
    by (rule last_nonblank_decomp) (simp_all add: prefix_marker marker_not_blank empty_blank)
  then show ?thesis
    by (simp add: marker_only_last_def lines_doc_stamped line1_not_marker)
qed

lemma applyStamp_doc_two_lines: "applyStamp doc_two_lines L = doc_two_lines @ [LF] @ L @ [LF]"
proof -
  have "lines_of doc_two_lines = [js ''line1''] @ js ''line2'' # [[]]"
    by (simp add: lines_doc_two_lines)
  then have "applyStamp doc_two_lines L = join_nl (lines_of doc_two_lines @ [L]) @ [LF]"
    by (rule applyStamp_append_nonmarker)
      (simp_all add: line2_not_blank line2_not_marker empty_blank)
  then have "applyStamp doc_two_lines L =
      join_nl ([js ''line1'', js ''line2'', []] @ [L]) @ [LF]"
    by (simp only: lines_doc_two_lines)
  then show ?thesis
    by (simp add: doc_two_lines_def)
qed

lemma applyStamp_doc_stamped: "applyStamp doc_stamped L = js ''line1'' @ [LF] @ L @ [LF, LF]"
proof -
  have "lines_of doc_stamped = [js ''line1''] @ (STAMP_PREFIX @ js '' old'') # [[]]"
    by (simp add: lines_doc_stamped)
  then have "applyStamp doc_stamped L = join_nl ([js ''line1''] @ L # [[]]) @ [LF]"
    by (rule applyStamp_replace) (simp_all add: prefix_marker marker_not_blank empty_blank)
  then show ?thesis
    by simp
qed

lemma applyStamp_empty: "applyStamp [] L = [LF] @ L @ [LF]"
proof -
  have "lines_of [] = [[]]" by (simp add: lines_of_def)
  then have "applyStamp [] L = join_nl (lines_of [] @ [L]) @ [LF]"
    by (intro applyStamp_append_blank) (simp add: empty_blank)
  then show ?thesis
    by (simp add: lines_of_def)
qed

section \<open>Properties of the dates\<close>


lemma MonthFromTime_range: "0 \<le> MonthFromTime t \<and> MonthFromTime t \<le> 11"
  by (simp add: MonthFromTime_def Let_def)

lemma MakeDay_same:
  "MakeDay (YearFromTime t) (MonthFromTime t) (DateFromTime t + k) = Day t + k"
proof -
  have "MonthFromTime t div 12 = 0" "MonthFromTime t mod 12 = MonthFromTime t"
    using MonthFromTime_range [of t] by simp_all
  then show ?thesis
    by (simp add: MakeDay_def DateFromTime_def DayWithinYear_def InLeapYear_def)
qed

lemma setUTCDate_shift: "setUTCDate t (getUTCDate t + k) = t + k * msPerDay"
proof -
  have "(Day t + k) * msPerDay + TimeWithinDay t = t + k * msPerDay"
    by (simp add: Day_def TimeWithinDay_def algebra_simps)
  then show ?thesis
    by (simp add: setUTCDate_def getUTCDate_def MakeDay_same MakeDate_def)
qed

lemma Day_shift: "Day (t + k * msPerDay) = Day t + k"
  by (simp add: Day_def msPerDay_def)

lemma thisWeekSunday_eq: "thisWeekSunday now = now + ((7 - WeekDay now) mod 7) * msPerDay"
  by (simp add: thisWeekSunday_def Let_def setUTCDate_shift getUTCDay_def)

lemma WeekDay_Sunday: "WeekDay (thisWeekSunday now) = 0"
  unfolding thisWeekSunday_eq WeekDay_def Day_shift by presburger

lemma Day_cong_fields:
  assumes "Day t = Day t'"
  shows "YearFromTime t = YearFromTime t'" "MonthFromTime t = MonthFromTime t'"
    "DateFromTime t = DateFromTime t'" "WeekDay t = WeekDay t'"
proof -
  show y: "YearFromTime t = YearFromTime t'"
    using assms by (simp add: YearFromTime_def)
  have d: "DayWithinYear t = DayWithinYear t'"
    using assms y by (simp add: DayWithinYear_def)
  have l: "InLeapYear t = InLeapYear t'"
    using y by (simp add: InLeapYear_def)
  show m: "MonthFromTime t = MonthFromTime t'"
    using d l by (simp add: MonthFromTime_def)
  show "DateFromTime t = DateFromTime t'"
    using d l m by (simp add: DateFromTime_def)
  show "WeekDay t = WeekDay t'"
    using assms by (simp add: WeekDay_def)
qed

lemma date_text_cong: "Day t = Day t' \<Longrightarrow> date_text t = date_text t'"
  using Day_cong_fields [of t t']
  by (simp add: date_text_def getUTCFullYear_def getUTCMonth_def getUTCDate_def)

lemma getISOWeek_cong: "Day t = Day t' \<Longrightarrow> getISOWeek t = getISOWeek t'"
  using Day_cong_fields [of t t']
  by (simp add: getISOWeek_def getUTCFullYear_def getUTCMonth_def getUTCDate_def)

lemma Day_thisWeekSunday: "Day (thisWeekSunday now) = Day now + (7 - WeekDay now) mod 7"
  by (simp add: thisWeekSunday_eq Day_shift)

lemma calcThisWeekStamp_cong:
  assumes "Day t = Day t'"
  shows "calcThisWeekStamp t = calcThisWeekStamp t'"
proof -
  have "WeekDay t = WeekDay t'"
    using assms by (rule Day_cong_fields)
  then have "Day (thisWeekSunday t) = Day (thisWeekSunday t')"
    using assms by (simp add: Day_thisWeekSunday)
  then have "date_text (thisWeekSunday t) = date_text (thisWeekSunday t')"
    and "getISOWeek (thisWeekSunday t) = getISOWeek (thisWeekSunday t')"
    by (rule date_text_cong, rule getISOWeek_cong)
  then show ?thesis
    by (simp add: calcThisWeekStamp_def Let_def)
qed

lemma Day_of_instant:
  assumes "d * msPerDay \<le> t" "t < (d + 1) * msPerDay"
  shows "Day t = d"
proof -
  define r where "r = t - d * msPerDay"
  have r: "0 \<le> r" "r < msPerDay"
    using assms by (simp_all add: r_def algebra_simps)
  have "msPerDay \<noteq> 0" by (simp add: msPerDay_def)
  then have "(r + d * msPerDay) div msPerDay = d + r div msPerDay"
    by (rule div_mult_self1)
  moreover have "r div msPerDay = 0"
    using r by (rule div_pos_pos_trivial)
  moreover have "t = r + d * msPerDay"
    by (simp add: r_def)
  ultimately show ?thesis
    by (simp add: Day_def)
qed

lemma sunday_2024: "thisWeekSunday 1704067200000 = 1704585600000"
  by (simp add: thisWeekSunday_eq WeekDay_def Day_def msPerDay_def)

lemma year_2024: "YearFromTime 1704585600000 = 2024"
  by (simp add: YearFromTime_def YearFromDay_def Day_def msPerDay_def year_search.simps DayFromYear_def)

lemma fields_2024:
  "MonthFromTime 1704585600000 = 0" "DateFromTime 1704585600000 = 7" "WeekDay 1704585600000 = 0"
  by (simp_all add: MonthFromTime_def DateFromTime_def DayWithinYear_def InLeapYear_def year_2024
      Day_def msPerDay_def DayFromYear_def leap_year_def month_start_def WeekDay_def)

lemma text_2024: "date_text 1704585600000 = js ''2024-01-07''"
  by (simp add: date_text_def getUTCFullYear_def getUTCMonth_def getUTCDate_def year_2024
      fields_2024 String_int_def digits_of.simps padStart2_def digit_def js_def)

lemma utc_2024_01_07: "Date_UTC 2024 0 7 = 1704585600000"
  by (simp add: Date_UTC_def MakeDay_def MakeDate_def DayFromYear_def month_start_def
      msPerDay_def leap_year_def)

lemma utc_2024_01_01: "Date_UTC 2024 0 1 = 1704067200000"
  by (simp add: Date_UTC_def MakeDay_def MakeDate_def DayFromYear_def month_start_def
      msPerDay_def leap_year_def)

lemma thursday_2024: "setUTCDate 1704585600000 4 = 1704326400000"
  by (simp add: setUTCDate_def year_2024 fields_2024 MakeDay_def MakeDate_def DayFromYear_def
      month_start_def leap_year_def TimeWithinDay_def msPerDay_def)

lemma year_2024_thursday: "YearFromTime 1704326400000 = 2024"
  by (simp add: YearFromTime_def YearFromDay_def Day_def msPerDay_def year_search.simps DayFromYear_def)

lemma iso_2024: "getISOWeek 1704585600000 = (2024, 1)"
  by (simp add: getISOWeek_def getUTCFullYear_def getUTCMonth_def getUTCDate_def getUTCDay_def
      year_2024 fields_2024 utc_2024_01_07 thursday_2024 year_2024_thursday utc_2024_01_01)

lemma stamp_2024:
  "calcThisWeekStamp 1704067200000 =
     \<lparr>sundayStr = js ''2024-01-07'', isoYear = 2024, isoWeek = 1, stampText = label_2024_w1\<rparr>"
  by (simp add: calcThisWeekStamp_def sunday_2024 text_2024 iso_2024 label_2024_w1_def
      String_int_def digits_of.simps digit_def js_def)

lemma sunday_2025: "thisWeekSunday 1735603200000 = 1736035200000"
  by (simp add: thisWeekSunday_eq WeekDay_def Day_def msPerDay_def)

lemma year_2025: "YearFromTime 1736035200000 = 2025"
  by (simp add: YearFromTime_def YearFromDay_def Day_def msPerDay_def year_search.simps DayFromYear_def)

lemma fields_2025:
  "MonthFromTime 1736035200000 = 0" "DateFromTime 1736035200000 = 5" "WeekDay 1736035200000 = 0"
  by (simp_all add: MonthFromTime_def DateFromTime_def DayWithinYear_def InLeapYear_def year_2025
      Day_def msPerDay_def DayFromYear_def leap_year_def month_start_def WeekDay_def)

lemma text_2025: "date_text 1736035200000 = js ''2025-01-05''"
  by (simp add: date_text_def getUTCFullYear_def getUTCMonth_def getUTCDate_def year_2025
      fields_2025 String_int_def digits_of.simps padStart2_def digit_def js_def)

lemma utc_2025_01_05: "Date_UTC 2025 0 5 = 1736035200000"
  by (simp add: Date_UTC_def MakeDay_def MakeDate_def DayFromYear_def month_start_def
      msPerDay_def leap_year_def)

lemma utc_2025_01_01: "Date_UTC 2025 0 1 = 1735689600000"
  by (simp add: Date_UTC_def MakeDay_def MakeDate_def DayFromYear_def month_start_def
      msPerDay_def leap_year_def)

lemma thursday_2025: "setUTCDate 1736035200000 2 = 1735776000000"
  by (simp add: setUTCDate_def year_2025 fields_2025 MakeDay_def MakeDate_def DayFromYear_def
      month_start_def leap_year_def TimeWithinDay_def msPerDay_def)

lemma year_2025_thursday: "YearFromTime 1735776000000 = 2025"
  by (simp add: YearFromTime_def YearFromDay_def Day_def msPerDay_def year_search.simps DayFromYear_def)

lemma iso_2025: "getISOWeek 1736035200000 = (2025, 1)"
  by (simp add: getISOWeek_def getUTCFullYear_def getUTCMonth_def getUTCDate_def getUTCDay_def
      year_2025 fields_2025 utc_2025_01_05 thursday_2025 year_2025_thursday utc_2025_01_01)

lemma stamp_2025:
  "calcThisWeekStamp 1735603200000 =
     \<lparr>sundayStr = js ''2025-01-05'', isoYear = 2025, isoWeek = 1, stampText = label_2025_w1\<rparr>"
  by (simp add: calcThisWeekStamp_def sunday_2025 text_2025 iso_2025 label_2025_w1_def
      String_int_def digits_of.simps digit_def js_def)

section \<open>The year of a day\<close>

text \<open>
  The search gives the largest year whose first day is not after the day, as ECMAScript
  defines the year of a time value.
\<close>

lemma year_step_arith:
  fixes y a b c a' b' c' :: int
  shows "a \<le> a' \<Longrightarrow> b' \<le> b + 1 \<Longrightarrow> c \<le> c' \<Longrightarrow>
    365 * (y - 1970) + a - b + c < 365 * (y + 1 - 1970) + a' - b' + c'"
  by arith

lemma DayFromYear_step: "DayFromYear y < DayFromYear (y + 1)"
proof -
  have a: "(y - 1969) div 4 \<le> (y + 1 - 1969) div 4"
    by (rule zdiv_mono1) simp_all
  have "(y + 1 - 1901) div 100 \<le> (y - 1901 + 100) div 100"
    by (rule zdiv_mono1) simp_all
  then have b: "(y + 1 - 1901) div 100 \<le> (y - 1901) div 100 + 1"
    by simp
  have c: "(y - 1601) div 400 \<le> (y + 1 - 1601) div 400"
    by (rule zdiv_mono1) simp_all
  show ?thesis
    unfolding DayFromYear_def by (rule year_step_arith [OF a b c])
qed

lemma year_search_upper: "d < DayFromYear (year_search y d + 1)"
proof (induction y d rule: year_search.induct)
  case (1 y d)
  show ?case
  proof (cases "DayFromYear (y + 1) \<le> d")
    case True
    with 1 show ?thesis by (subst year_search.simps) simp
  next
    case False
    then show ?thesis by (subst year_search.simps) simp
  qed
qed

lemma year_search_lower: "DayFromYear y \<le> d \<Longrightarrow> DayFromYear (year_search y d) \<le> d"
proof (induction y d rule: year_search.induct)
  case (1 y d)
  show ?case
  proof (cases "DayFromYear (y + 1) \<le> d")
    case True
    with 1 show ?thesis by (subst year_search.simps) simp
  next
    case False
    with 1 show ?thesis by (subst year_search.simps) simp
  qed
qed

lemma div_bounds:
  fixes x n :: int
  assumes "0 < n"
  shows "n * (x div n) \<le> x" and "x < n * (x div n) + n"
proof -
  have "x = n * (x div n) + x mod n" by simp
  moreover have "0 \<le> x mod n" "x mod n < n" using assms by simp_all
  ultimately show "n * (x div n) \<le> x" and "x < n * (x div n) + n" by linarith+
qed

lemma leap_days_pos:
  fixes k a b c :: int
  assumes "2 \<le> k" "4 * a \<le> k + 1" "k + 69 < 100 * b + 100" "400 * c \<le> k + 369"
  shows "a - b + c \<le> k"
  using assms by linarith

lemma leap_days_neg:
  fixes k a b c :: int
  assumes "k \<le> - 2" "4 * a \<le> k + 1" "k + 69 < 100 * b + 100" "400 * c \<le> k + 369"
  shows "a - b + c \<le> 0"
  using assms by linarith

lemma DayFromYear_1970: "DayFromYear (1970 + k) =
    365 * k + (k + 1) div 4 - (k + 69) div 100 + (k + 369) div 400"
proof -
  have "1970 + k - 1969 = k + 1" "1970 + k - 1901 = k + 69" "1970 + k - 1601 = k + 369"
    "1970 + k - 1970 = k"
    by simp_all
  then show ?thesis
    unfolding DayFromYear_def by (simp only:)
qed

lemma leap_days_le:
  fixes k :: int
  shows "0 \<le> k \<Longrightarrow> (k + 1) div 4 - (k + 69) div 100 + (k + 369) div 400 \<le> k"
    and "k < 0 \<Longrightarrow> (k + 1) div 4 - (k + 69) div 100 + (k + 369) div 400 \<le> 0"
proof -
  have a: "4 * ((k + 1) div 4) \<le> k + 1"
    by (rule div_bounds) simp
  have b: "k + 69 < 100 * ((k + 69) div 100) + 100"
    by (rule div_bounds) simp
  have c: "400 * ((k + 369) div 400) \<le> k + 369"
    by (rule div_bounds) simp
  show "(k + 1) div 4 - (k + 69) div 100 + (k + 369) div 400 \<le> k" if "0 \<le> k"
  proof (cases "2 \<le> k")
    case True
    then show ?thesis using a b c by (rule leap_days_pos)
  next
    case False
    with that have "k = 0 \<or> k = 1" by auto
    then show ?thesis by auto
  qed
  show "(k + 1) div 4 - (k + 69) div 100 + (k + 369) div 400 \<le> 0" if "k < 0"
  proof (cases "k \<le> - 2")
    case True
    then show ?thesis using a b c by (rule leap_days_neg)
  next
    case False
    with that have "k = - 1" by auto
    then show ?thesis by simp
  qed
qed

lemma year_start_le:
  "DayFromYear (1970 + (if 0 \<le> d then d div 366 else d div 365)) \<le> d"
proof (cases "0 \<le> d")
  case True
  have k: "0 \<le> d div 366"
    using True by (simp add: pos_imp_zdiv_nonneg_iff)
  have "366 * (d div 366) \<le> d"
    by (rule div_bounds) simp
  then show ?thesis
    using True leap_days_le(1) [OF k] unfolding DayFromYear_1970 by simp
next
  case False
  have le: "365 * (d div 365) \<le> d"
    by (rule div_bounds) simp
  with False have k: "d div 365 < 0"
    by linarith
  show ?thesis
    using False le leap_days_le(2) [OF k] unfolding DayFromYear_1970 by simp
qed

lemma YearFromDay_bounds:
  "DayFromYear (YearFromDay d) \<le> d" "d < DayFromYear (YearFromDay d + 1)"
  unfolding YearFromDay_def
  by (rule year_search_lower [OF year_start_le], rule year_search_upper)

lemma DayFromYear_mono: "y \<le> y' \<Longrightarrow> DayFromYear y \<le> DayFromYear y'"
proof (induction "nat (y' - y)" arbitrary: y')
  case 0
  then show ?case by simp
next
  case (Suc n)
  then have "n = nat ((y' - 1) - y)" "y \<le> y' - 1" by linarith+
  then have "DayFromYear y \<le> DayFromYear (y' - 1)" by (rule Suc.hyps(1))
  also have "DayFromYear (y' - 1) < DayFromYear (y' - 1 + 1)" by (rule DayFromYear_step)
  finally show ?case by simp
qed

lemma YearFromDay_largest: "DayFromYear y \<le> d \<Longrightarrow> y \<le> YearFromDay d"
proof (rule ccontr)
  assume a: "DayFromYear y \<le> d" and "\<not> y \<le> YearFromDay d"
  then have "YearFromDay d + 1 \<le> y" by simp
  then have "DayFromYear (YearFromDay d + 1) \<le> DayFromYear y" by (rule DayFromYear_mono)
  with a YearFromDay_bounds(2) [of d] show False by linarith
qed

section \<open>The labels of the week stamp\<close>

text \<open>Every label that the program computes starts with the marker token and is one line.\<close>

lemma digit_not_lf: "k < 10 \<Longrightarrow> LF \<noteq> digit k"
proof -
  assume "k < 10"
  then have "k \<in> {0, 1, 2, 3, 4, 5, 6, 7, 8, 9}" by auto
  then show ?thesis
    by (auto simp: digit_def LF_def)
qed

lemma digits_of_no_lf: "LF \<notin> set (digits_of n)"
proof (induction n rule: digits_of.induct)
  case (1 n)
  show ?case
  proof (cases "n < 10")
    case True
    then show ?thesis
      by (subst digits_of.simps) (simp add: digit_not_lf)
  next
    case False
    moreover have "LF \<noteq> digit (n mod 10)"
      by (rule digit_not_lf) simp
    ultimately show ?thesis
      using 1 by (subst digits_of.simps) simp
  qed
qed

lemma String_int_no_lf: "LF \<notin> set (String_int i)"
  by (simp add: String_int_def digits_of_no_lf) (simp add: js_def LF_def)

lemma padStart2_no_lf: "LF \<notin> set s \<Longrightarrow> LF \<notin> set (padStart2 s)"
  using digit_not_lf [of 0] by (auto simp: padStart2_def)

lemma date_text_no_lf: "LF \<notin> set (date_text t)"
proof -
  have "LF \<notin> set (js ''-'')"
    by (simp add: js_def LF_def)
  then show ?thesis
    by (simp add: date_text_def Let_def String_int_no_lf padStart2_no_lf)
qed

lemma stampText_label_ok: "label_ok (stampText (calcThisWeekStamp now))"
proof -
  obtain y w where iso: "getISOWeek (thisWeekSunday now) = (y, w)"
    by (cases "getISOWeek (thisWeekSunday now)")
  have t: "stampText (calcThisWeekStamp now) =
      STAMP_PREFIX @ (js '' '' @ date_text (thisWeekSunday now) @ js '' '' @ [0xB7] @ js '' '' @
        String_int y @ [0x5E74, 0x7B2C] @ String_int w @ [0x5468])"
    by (simp add: calcThisWeekStamp_def Let_def iso)
  have "LF \<notin> set STAMP_PREFIX" "LF \<notin> set (js '' '')" "LF \<noteq> 0xB7" "LF \<noteq> 0x5E74"
    "LF \<noteq> 0x7B2C" "LF \<noteq> 0x5468"
    by (simp_all add: STAMP_PREFIX_def js_def LF_def)
  then have "LF \<notin> set (stampText (calcThisWeekStamp now))"
    unfolding t by (simp add: date_text_no_lf String_int_no_lf)
  moreover have "is_marker (stampText (calcThisWeekStamp now))"
    unfolding t by (rule prefix_marker)
  ultimately show ?thesis
    by (simp add: label_ok_def)
qed

lemma single_marker_week_labels:
  assumes "marker_only_last (lines_of d)" and "nows \<noteq> []"
  shows "marker_count
           (split_nl (foldl applyStamp d (map (\<lambda>now. stampText (calcThisWeekStamp now)) nows))) = 1"
proof -
  have "list_all label_ok (map (\<lambda>now. stampText (calcThisWeekStamp now)) nows)"
    by (simp add: list_all_iff stampText_label_ok)
  then show ?thesis
    using assms applyStamp_fold [of d "map (\<lambda>now. stampText (calcThisWeekStamp now)) nows"]
    by simp
qed

section \<open>Properties of the service calls\<close>

lemma list_requests_Suc:
  "1 \<le> p \<Longrightarrow> list_requests token (p - 1) @ [ListRepos token perPage p] = list_requests token p"
  by (cases p) (simp_all add: list_requests_def)

lemma loop_full:
  assumes "full_page (fetch P log (ListRepos token perPage p))"
  shows "fetchAllRepos_loop P token p acc log =
         fetchAllRepos_loop P token (p + 1)
           (acc @ page_batch (fetch P log (ListRepos token perPage p)))
           (log @ [ListRepos token perPage p])"
  using assms
  by (subst fetchAllRepos_loop.simps)
    (auto simp: full_page_def page_batch_def Let_def split: sum.splits)

lemma loop_short:
  assumes "short_page (fetch P log (ListRepos token perPage p))"
  shows "fetchAllRepos_loop P token p acc log =
         Some (Inr (acc @ page_batch (fetch P log (ListRepos token perPage p))),
               log @ [ListRepos token perPage p])"
  using assms
  by (subst fetchAllRepos_loop.simps)
    (auto simp: short_page_def page_batch_def Let_def split: sum.splits)

lemma loop_failed:
  assumes "failed_page (fetch P log (ListRepos token perPage p))"
  shows "fetchAllRepos_loop P token p acc log =
         Some (Inl (page_error (fetch P log (ListRepos token perPage p))),
               log @ [ListRepos token perPage p])"
  using assms
  by (subst fetchAllRepos_loop.simps)
    (auto simp: failed_page_def page_error_def Let_def split: sum.splits)

lemma loop_run:
  assumes "\<forall>q. p \<le> q \<and> q < k \<longrightarrow> full_page (page_response P token log q)"
    and "1 \<le> p" "p \<le> k"
  shows "fetchAllRepos_loop P token p acc (log @ list_requests token (p - 1)) =
         fetchAllRepos_loop P token k
           (acc @ concat (map (\<lambda>q. page_batch (page_response P token log q)) [p..<k]))
           (log @ list_requests token (k - 1))"
  using assms
proof (induction "k - p" arbitrary: p acc)
  case 0
  then have "p = k" by simp
  then show ?case by simp
next
  case (Suc n)
  then have lt: "p < k" by simp
  with Suc.prems have full: "full_page (page_response P token log p)" by simp
  have "fetchAllRepos_loop P token p acc (log @ list_requests token (p - 1)) =
        fetchAllRepos_loop P token (p + 1)
          (acc @ page_batch (page_response P token log p))
          ((log @ list_requests token (p - 1)) @ [ListRepos token perPage p])"
    using full unfolding page_response_def by (rule loop_full)
  also have "(log @ list_requests token (p - 1)) @ [ListRepos token perPage p] =
        log @ list_requests token (p + 1 - 1)"
    using list_requests_Suc [of p token] Suc.prems(2) by simp
  also have "fetchAllRepos_loop P token (p + 1)
          (acc @ page_batch (page_response P token log p))
          (log @ list_requests token (p + 1 - 1)) =
        fetchAllRepos_loop P token k
          ((acc @ page_batch (page_response P token log p)) @
            concat (map (\<lambda>q. page_batch (page_response P token log q)) [p + 1..<k]))
          (log @ list_requests token (k - 1))"
    using Suc.hyps(2) Suc.prems lt by (intro Suc.hyps(1)) simp_all
  also have "(acc @ page_batch (page_response P token log p)) @
            concat (map (\<lambda>q. page_batch (page_response P token log q)) [p + 1..<k]) =
        acc @ concat (map (\<lambda>q. page_batch (page_response P token log q)) [p..<k])"
    using lt by (simp add: upt_conv_Cons)
  finally show ?case .
qed

lemma update_loop_results:
  "fst (update_loop P token st repos summary log) =
     summary @ map2 entry_for repos (updater_results P token st repos log)"
proof (induction repos arbitrary: summary log)
  case Nil
  show ?case by simp
next
  case (Cons r rs)
  obtain result log' where u:
    "updateReadmeForRepo P token (repo_owner_login r) (repo_name r) st log = (result, log')"
    by (cases "updateReadmeForRepo P token (repo_owner_login r) (repo_name r) st log")
  have "update_loop P token st (r # rs) summary log =
        update_loop P token st rs (summary @ [entry_for r result]) log'"
    by (simp add: u entry_for_def)
  moreover have "updater_results P token st (r # rs) log =
        result # updater_results P token st rs log'"
    by (simp add: u)
  ultimately show ?case
    using Cons.IH [of "summary @ [entry_for r result]" log'] by simp
qed

lemma length_updater_results: "length (updater_results P token st repos log) = length repos"
  by (induction repos arbitrary: log) (auto split: prod.splits)

lemma entry_for_repo:
  "entry_repo (entry_for r result) = repo_owner_login r @ js ''/'' @ repo_name r"
  by (cases result) (simp_all add: entry_for_def summary_of_def)

lemma entry_for_error:
  "entry_status (entry_for r result) = js ''error'' \<longleftrightarrow> isl result"
  by (cases result) (simp_all add: entry_for_def summary_of_def js_def)

lemma entry_for_error_text:
  "entry_error (entry_for r result) = (case result of Inl e \<Rightarrow> Some (String_err e) | Inr b \<Rightarrow> None)"
  by (cases result) (simp_all add: entry_for_def summary_of_def)

lemma updateAllRepos_run:
  assumes "GITHUB_TOKEN env = Some token" "token \<noteq> []"
    and "fetchAllRepos P token [] = Some (Inr repos, log)"
  shows "updateAllRepos P now env =
     Some (Inr \<lparr>run_stampInfo = calcThisWeekStamp now,
                 run_summary = map2 entry_for repos
                   (updater_results P token (calcThisWeekStamp now) repos log)\<rparr>,
           snd (update_loop P token (calcThisWeekStamp now) repos [] log))"
proof -
  obtain summary log' where u:
    "update_loop P token (calcThisWeekStamp now) repos [] log = (summary, log')"
    by (cases "update_loop P token (calcThisWeekStamp now) repos [] log")
  have "summary =
      map2 entry_for repos (updater_results P token (calcThisWeekStamp now) repos log)"
    using update_loop_results [of P token "calcThisWeekStamp now" repos "[]" log]
    by (simp add: u)
  then show ?thesis
    using assms by (simp add: updateAllRepos_def Let_def u)
qed

lemma updater_writes:
  assumes "fetch P log (GetReadme token owner repo) = Inr res"
    and "res_status res \<noteq> 404" "res_ok res" "json_readme res = Inr rd"
    and "fromBase64 P (readme_content rd) = Inr d"
    and "encodeURIComponent P (readme_path rd) = Inr path"
    and "toBase64 P (applyStamp d (stampText st)) = Inr c"
  shows "updateReadmeForRepo P token owner repo st log =
     (case fetch P (log @ [GetReadme token owner repo])
             (PutContents token owner repo path (commit_message st) c (readme_sha rd)) of
        Inl e \<Rightarrow> Inl e
      | Inr updateRes \<Rightarrow>
          if res_ok updateRes then Inr True else Inl (http_error MSG_UPDATE_FAILED updateRes),
      log @ [GetReadme token owner repo,
             PutContents token owner repo path (commit_message st) c (readme_sha rd)])"
  using assms applyStamp_changes [of d "stampText st"]
  by (simp add: updateReadmeForRepo_def Let_def split: sum.splits)

lemma fetchAllRepos_pages:
  assumes "1 \<le> k" and "\<forall>p. 1 \<le> p \<and> p < k \<longrightarrow> full_page (page_response P token log p)"
  shows "fetchAllRepos P token log =
         fetchAllRepos_loop P token k
           (concat (map (\<lambda>q. page_batch (page_response P token log q)) [1..<k]))
           (log @ list_requests token (k - 1))"
proof -
  have "fetchAllRepos_loop P token 1 [] (log @ list_requests token (1 - 1)) =
        fetchAllRepos_loop P token k
          ([] @ concat (map (\<lambda>q. page_batch (page_response P token log q)) [1..<k]))
          (log @ list_requests token (k - 1))"
    using assms by (intro loop_run) simp_all
  then show ?thesis
    by (simp add: fetchAllRepos_def list_requests_def)
qed

section \<open>The example service\<close>

lemma paged_page_1:
  "page_response paged_platform example_token [] 1 =
     Inr (ok_json (RepoList (replicate 100 repo_alpha)))"
  by (simp add: page_response_def paged_platform_def)

lemma paged_page_2:
  "page_response paged_platform example_token [] 2 = Inr (ok_json (RepoList [repo_beta]))"
  by (simp add: page_response_def paged_platform_def)

lemma failing_page_1:
  "page_response failing_platform example_token [] 1 =
     Inr \<lparr>res_status = 500, res_text = js ''Server Error'', res_json = Inr OtherJson\<rparr>"
  by (simp add: page_response_def failing_platform_def)

lemma String_int_500: "String_int 500 = js ''500''"
  by (simp add: String_int_def digits_of.simps digit_def js_def)

lemma ucast_bytes:
  "map ((ucast :: 16 word \<Rightarrow> 8 word) \<circ> (ucast :: 8 word \<Rightarrow> 16 word)) bs = bs"
  by (induction bs) (simp_all add: ucast_up_ucast_id is_up)

lemma fromBase64_plain:
  "fromBase64 (example_platform c) readme_plain_b64 = Inr doc_two_lines"
proof -
  have "filter (\<lambda>c. c \<noteq> LF) readme_plain_b64 \<noteq> filter (\<lambda>c. c \<noteq> LF) readme_stamped_b64"
    by (simp add: readme_plain_b64_def readme_stamped_b64_def js_def LF_def)
  moreover have "readme_plain_utf8 \<noteq> readme_stamped_utf8"
    by (simp add: readme_plain_utf8_def readme_stamped_utf8_def ascii_bytes_def
        label_2024_w1_utf8_def)
  ultimately show ?thesis
    by (simp add: fromBase64_def example_platform_def example_atob_def example_decode_def
        ucast_bytes)
qed

lemma fromBase64_stamped:
  "fromBase64 (example_platform c) readme_stamped_b64 = Inr readme_stamped"
  by (simp add: fromBase64_def example_platform_def example_atob_def example_decode_def
      ucast_bytes)

lemma lines_readme_stamped: "lines_of readme_stamped = [js ''line1'', label_2024_w1, []]"
  by (simp add: lines_of_def readme_stamped_def label_2024_w1_def js_def LF_def CR_def
      STAMP_PREFIX_def)

lemma applyStamp_readme_stamped: "applyStamp readme_stamped L = js ''line1'' @ [LF] @ L @ [LF, LF]"
proof -
  have m: "is_marker label_2024_w1"
    using label_2024_w1_ok by (simp add: label_ok_def)
  have "lines_of readme_stamped = [js ''line1''] @ label_2024_w1 # [[]]"
    by (simp add: lines_readme_stamped)
  then have "applyStamp readme_stamped L = join_nl ([js ''line1''] @ L # [[]]) @ [LF]"
    by (rule applyStamp_replace) (simp_all add: m marker_not_blank empty_blank)
  then show ?thesis
    by simp
qed

lemma toBase64_stamped_new:
  "toBase64 (example_platform c) stamped_new = Inr stamped_new_b64"
  by (simp add: toBase64_def example_platform_def example_encode_def example_btoa_def)

lemma toBase64_plain_new:
  "toBase64 (example_platform c) plain_new = Inr plain_new_b64"
proof -
  have "plain_new \<noteq> stamped_new"
    by (simp add: plain_new_def stamped_new_def doc_two_lines_def js_def LF_def)
  moreover have "length plain_new_utf8 \<noteq> length stamped_new_utf8"
    by (simp add: plain_new_utf8_def stamped_new_utf8_def readme_plain_utf8_def ascii_bytes_def)
  then have "map (ucast :: 8 word \<Rightarrow> 16 word) plain_new_utf8 \<noteq> map ucast stamped_new_utf8"
    by (metis length_map)
  ultimately show ?thesis
    by (simp add: toBase64_def example_platform_def example_encode_def example_btoa_def)
qed

lemma commit_message_2024: "commit_message stamp_2024_w1 = example_message"
  by (simp add: commit_message_def stamp_2024_w1_def example_message_def js_def)

lemma updater_example:
  assumes repo: "repo \<noteq> js ''gamma''"
    and d: "fromBase64 (example_platform c) c = Inr d"
    and n: "toBase64 (example_platform c) (applyStamp d label_2024_w1) = Inr c'"
  shows "updateReadmeForRepo (example_platform c) token owner repo stamp_2024_w1 log =
     (if repo = js ''beta''
      then Inl (Error (MSG_UPDATE_FAILED @ js ''409'' @ js '' '' @ js ''conflict''))
      else Inr True,
      log @ [GetReadme token owner repo,
             PutContents token owner repo (js ''README.md'') example_message c' (js ''3b18e5'')])"
proof -
  define res where "res = ok_json (Readme \<lparr>readme_sha = js ''3b18e5'',
    readme_path = js ''README.md'', readme_content = c\<rparr>)"
  define rd where "rd = \<lparr>readme_sha = js ''3b18e5'', readme_path = js ''README.md'',
    readme_content = c\<rparr>"
  have 1: "fetch (example_platform c) log (GetReadme token owner repo) = Inr res"
    using repo by (simp add: example_platform_def example_fetch_def res_def)
  have 2: "res_status res \<noteq> 404" and 3: "res_ok res" and 4: "json_readme res = Inr rd"
    by (simp_all add: res_def rd_def ok_json_def res_ok_def json_readme_def)
  have 5: "fromBase64 (example_platform c) (readme_content rd) = Inr d"
    using d by (simp add: rd_def)
  have 6: "encodeURIComponent (example_platform c) (readme_path rd) = Inr (js ''README.md'')"
    by (simp add: rd_def example_platform_def)
  have 7: "toBase64 (example_platform c) (applyStamp d (stampText stamp_2024_w1)) = Inr c'"
    using n by (simp add: stamp_2024_w1_def)
  have s409: "String_int 409 = js ''409''"
    by (simp add: String_int_def digits_of.simps digit_def js_def)
  have put: "fetch (example_platform c) (log @ [GetReadme token owner repo])
      (PutContents token owner repo (js ''README.md'') example_message c' (js ''3b18e5'')) =
      (if repo = js ''beta''
       then Inr \<lparr>res_status = 409, res_text = js ''conflict'', res_json = Inr OtherJson\<rparr>
       else Inr (ok_json OtherJson))"
    by (simp add: example_platform_def example_fetch_def)
  show ?thesis
    unfolding updater_writes [OF 1 2 3 4 5 6 7] commit_message_2024
    by (simp add: put rd_def res_ok_def ok_json_def http_error_def s409)
qed

lemma updater_example_gamma:
  "updateReadmeForRepo (example_platform c) token owner (js ''gamma'') st log =
     (Inr False, log @ [GetReadme token owner (js ''gamma'')])"
  by (simp add: updateReadmeForRepo_def example_platform_def example_fetch_def Let_def)

lemma example_listing:
  "fetchAllRepos (example_platform c) token [] =
     Some (Inr [repo_alpha, repo_beta, repo_gamma], [ListRepos token 100 1])"
proof -
  have r: "fetch (example_platform c) [] (ListRepos token perPage 1) =
      Inr (ok_json (RepoList [repo_alpha, repo_beta, repo_gamma]))"
    by (simp add: example_platform_def example_fetch_def)
  have "short_page (fetch (example_platform c) [] (ListRepos token perPage 1))"
    unfolding r by (simp add: short_page_def ok_json_def res_ok_def json_repos_def perPage_def)
  then have "fetchAllRepos_loop (example_platform c) token 1 [] [] =
      Some (Inr ([] @ page_batch (fetch (example_platform c) [] (ListRepos token perPage 1))),
            [] @ [ListRepos token perPage 1])"
    by (rule loop_short)
  then show ?thesis
    unfolding r by (simp add: fetchAllRepos_def page_batch_def ok_json_def json_repos_def perPage_def)
qed

lemma names_distinct: "js ''alpha'' \<noteq> js ''gamma''" "js ''beta'' \<noteq> js ''gamma''"
  "js ''alpha'' \<noteq> js ''beta''"
  by (simp_all add: js_def)

lemma example_results:
  "updater_results (example_platform readme_plain_b64) example_token stamp_2024_w1
     [repo_alpha, repo_beta, repo_gamma] log =
   [Inr True,
    Inl (Error (MSG_UPDATE_FAILED @ js ''409'' @ js '' '' @ js ''conflict'')),
    Inr False]"
proof -
  have d: "fromBase64 (example_platform readme_plain_b64) readme_plain_b64 = Inr doc_two_lines"
    by (rule fromBase64_plain)
  have n: "toBase64 (example_platform readme_plain_b64) (applyStamp doc_two_lines label_2024_w1) =
      Inr plain_new_b64"
    unfolding applyStamp_doc_two_lines plain_new_def [symmetric] by (rule toBase64_plain_new)
  note a = updater_example [OF names_distinct(1) d n]
  note b = updater_example [OF names_distinct(2) d n]
  show ?thesis
    by (simp add: repo_alpha_def repo_beta_def repo_gamma_def a b updater_example_gamma
        names_distinct)
qed

section \<open>The laws of the marker patcher\<close>

text \<open>
  C1. The spec: patching twice with the same label gives the same text as patching once.
  The code never does so. A text that ends with a line feed splits into lines whose last
  one is empty, and the patcher ends its output with one more line feed after joining the
  lines; so its output always has more line feeds than its input, and a second run changes
  the result of the first, for every document and every label.
\<close>

theorem applyStamp_not_idempotent:
  "applyStamp (applyStamp d L) L \<noteq> applyStamp d L"
  by (rule applyStamp_changes)

theorem applyStamp_not_idempotent_witness:
  "applyStamp (applyStamp doc_stamped label_2024_w1) label_2024_w1 \<noteq>
   applyStamp doc_stamped label_2024_w1"
  by (rule applyStamp_not_idempotent)

text \<open>
  C3. The spec: the empty document is patched to the label and one line feed. The code
  splits the empty text into one empty line, so its test for no lines fails, the label is
  pushed after that empty line, and the output starts with a line feed.
\<close>

theorem applyStamp_empty_document:
  "applyStamp [] L = [LF] @ L @ [LF] \<and> applyStamp [] L \<noteq> L @ [LF]"
proof -
  have "length ([LF] @ L @ [LF]) \<noteq> length (L @ [LF])" by simp
  then show ?thesis
    unfolding applyStamp_empty by metis
qed

theorem applyStamp_empty_document_witness:
  "applyStamp [] label_2024_w1 = [LF] @ label_2024_w1 @ [LF] \<and>
   applyStamp [] label_2024_w1 \<noteq> label_2024_w1 @ [LF]"
  by (rule applyStamp_empty_document)

text \<open>
  C4. The spec: two lines, each ended by a line feed, are patched to the same text followed
  by the label and a line feed. The code pushes the label after the empty last line of the
  split, so an empty line stands between the second line and the label.
\<close>

theorem applyStamp_append_case:
  "applyStamp doc_two_lines L = doc_two_lines @ [LF] @ L @ [LF] \<and>
   applyStamp doc_two_lines L \<noteq> doc_two_lines @ L @ [LF]"
proof -
  have "length (doc_two_lines @ [LF] @ L @ [LF]) \<noteq> length (doc_two_lines @ L @ [LF])"
    by simp
  then show ?thesis
    unfolding applyStamp_doc_two_lines by metis
qed

theorem applyStamp_append_case_witness:
  "applyStamp doc_two_lines label_2024_w1 = doc_two_lines @ [LF] @ label_2024_w1 @ [LF] \<and>
   applyStamp doc_two_lines label_2024_w1 \<noteq> doc_two_lines @ label_2024_w1 @ [LF]"
  by (rule applyStamp_append_case)

text \<open>
  C5. The spec: a document whose last line is a stamp is patched to the text before that
  line, the label and one line feed. The code replaces the line, keeps the empty last line
  of the split and adds a line feed after joining: the output ends with two line feeds.
\<close>

theorem applyStamp_replace_case:
  "applyStamp doc_stamped L = js ''line1'' @ [LF] @ L @ [LF, LF] \<and>
   applyStamp doc_stamped L \<noteq> js ''line1'' @ [LF] @ L @ [LF]"
proof -
  have "length (js ''line1'' @ [LF] @ L @ [LF, LF]) \<noteq> length (js ''line1'' @ [LF] @ L @ [LF])"
    by simp
  then show ?thesis
    unfolding applyStamp_doc_stamped by metis
qed

theorem applyStamp_replace_case_witness:
  "applyStamp doc_stamped label_2024_w1 = js ''line1'' @ [LF] @ label_2024_w1 @ [LF, LF] \<and>
   applyStamp doc_stamped label_2024_w1 \<noteq> js ''line1'' @ [LF] @ label_2024_w1 @ [LF]"
  by (rule applyStamp_replace_case)

text \<open>
  C6. The spec: after any sequence of labels the result has exactly one marker line, and
  the patcher never adds a second one. The code looks at the last non-blank line only: a
  document with a marker line further up gets a second marker line.
\<close>

theorem single_marker_counterexample:
  "marker_count (lines_of doc_marker_inside) = 1 \<and>
   marker_count (split_nl (foldl applyStamp doc_marker_inside [label_2024_w1])) = 2"
proof -
  have l: "lines_of doc_marker_inside = [STAMP_PREFIX @ js '' old''] @ js ''line2'' # []"
    by (simp add: lines_doc_marker_inside)
  have "applyStamp doc_marker_inside label_2024_w1 =
        join_nl (lines_of doc_marker_inside @ [label_2024_w1]) @ [LF]"
    using l by (rule applyStamp_append_nonmarker) (simp_all add: line2_not_blank line2_not_marker)
  then have "split_nl (applyStamp doc_marker_inside label_2024_w1) =
        lines_of doc_marker_inside @ split_nl label_2024_w1 @ [[]]"
    by (rule out_append)
  moreover have "split_nl label_2024_w1 = [label_2024_w1]"
    using label_2024_w1_ok by (simp add: label_ok_def split_nl_line)
  moreover have "is_marker label_2024_w1"
    using label_2024_w1_ok by (simp add: label_ok_def)
  ultimately show ?thesis
    by (simp add: lines_doc_marker_inside marker_count_def prefix_marker line2_not_marker
        empty_not_marker)
qed

text \<open>
  C6, amended. When no line before the last non-blank line of the document is a marker
  line, and every label of a non-empty sequence starts with the marker token and has no
  line feed, the result of applying the labels in succession has exactly one marker line.
\<close>

theorem single_marker_invariant:
  "marker_only_last (lines_of d) \<Longrightarrow> Ls \<noteq> [] \<Longrightarrow> list_all label_ok Ls \<Longrightarrow>
   marker_count (split_nl (foldl applyStamp d Ls)) = 1"
  using applyStamp_fold [of d Ls] by simp

theorem single_marker_invariant_witness:
  "marker_only_last (lines_of doc_stamped) \<and>
   [label_2024_w1, label_2025_w1] \<noteq> [] \<and>
   list_all label_ok [label_2024_w1, label_2025_w1] \<and>
   marker_count (split_nl (foldl applyStamp doc_stamped [label_2024_w1, label_2025_w1])) = 1"
proof -
  have h: "list_all label_ok [label_2024_w1, label_2025_w1]"
    by (simp add: label_2024_w1_ok label_2025_w1_ok)
  have ne: "[label_2024_w1, label_2025_w1] \<noteq> []" by simp
  show ?thesis
    using single_marker_invariant [OF doc_stamped_marker_only_last ne h]
      doc_stamped_marker_only_last h by simp
qed

text \<open>
  C7. Every line of the document (as the patcher reads it, after the CR LF replacement)
  that does not start with the marker token is a line of the output, unchanged and in the
  same order: the non-marker lines of the input are a subsequence of the output's lines.
\<close>

theorem applyStamp_preserves_content:
  "subseq (filter (\<lambda>l. \<not> is_marker l) (lines_of d)) (split_nl (applyStamp d L))"
  by (rule preserved)

theorem applyStamp_preserves_content_witness:
  "subseq (filter (\<lambda>l. \<not> is_marker l) (lines_of doc_marker_inside))
     (split_nl (applyStamp doc_marker_inside label_2024_w1))"
  by (rule applyStamp_preserves_content)

section \<open>The week stamp\<close>

text \<open>
  C8. At any instant of 2024-01-01, a Monday, the stamp has the Sunday 2024-01-07, ISO
  year 2024 and ISO week 1; at any instant of 2024-12-31, a Tuesday, it has the Sunday
  2025-01-05, ISO year 2025 and ISO week 1. At every instant the date of the stamp is the
  date of the computed Sunday, which falls on a Sunday; it is the instant itself when that
  is a Sunday, and otherwise lies one to six days later, at the same time of day.
\<close>

theorem week_stamp_sunday:
  "(1704067200000 \<le> t1 \<and> t1 < 1704153600000 \<longrightarrow>
      calcThisWeekStamp t1 =
        \<lparr>sundayStr = js ''2024-01-07'', isoYear = 2024, isoWeek = 1,
         stampText = label_2024_w1\<rparr> \<and>
      WeekDay t1 = 1) \<and>
   (1735603200000 \<le> t2 \<and> t2 < 1735689600000 \<longrightarrow>
      calcThisWeekStamp t2 =
        \<lparr>sundayStr = js ''2025-01-05'', isoYear = 2025, isoWeek = 1,
         stampText = label_2025_w1\<rparr> \<and>
      WeekDay t2 = 2) \<and>
   sundayStr (calcThisWeekStamp now) = date_text (thisWeekSunday now) \<and>
   WeekDay (thisWeekSunday now) = 0 \<and>
   thisWeekSunday now = now + ((7 - WeekDay now) mod 7) * msPerDay \<and>
   (WeekDay now = 0 \<longrightarrow> thisWeekSunday now = now) \<and>
   (WeekDay now \<noteq> 0 \<longrightarrow>
      Day now < Day (thisWeekSunday now) \<and> Day (thisWeekSunday now) \<le> Day now + 6)"
proof (intro conjI impI)
  assume "1704067200000 \<le> t1 \<and> t1 < 1704153600000"
  then have "Day t1 = 19723"
    by (intro Day_of_instant) (simp_all add: msPerDay_def)
  moreover have "Day 1704067200000 = 19723"
    by (simp add: Day_def msPerDay_def)
  ultimately have d: "Day t1 = Day 1704067200000" by simp
  then show "calcThisWeekStamp t1 =
      \<lparr>sundayStr = js ''2024-01-07'', isoYear = 2024, isoWeek = 1, stampText = label_2024_w1\<rparr>"
    using calcThisWeekStamp_cong [OF d] by (simp add: stamp_2024)
  show "WeekDay t1 = 1"
    using \<open>Day t1 = 19723\<close> by (simp add: WeekDay_def)
next
  assume "1735603200000 \<le> t2 \<and> t2 < 1735689600000"
  then have "Day t2 = 20088"
    by (intro Day_of_instant) (simp_all add: msPerDay_def)
  moreover have "Day 1735603200000 = 20088"
    by (simp add: Day_def msPerDay_def)
  ultimately have d: "Day t2 = Day 1735603200000" by simp
  then show "calcThisWeekStamp t2 =
      \<lparr>sundayStr = js ''2025-01-05'', isoYear = 2025, isoWeek = 1, stampText = label_2025_w1\<rparr>"
    using calcThisWeekStamp_cong [OF d] by (simp add: stamp_2025)
  show "WeekDay t2 = 2"
    using \<open>Day t2 = 20088\<close> by (simp add: WeekDay_def)
next
  show "sundayStr (calcThisWeekStamp now) = date_text (thisWeekSunday now)"
    by (simp add: calcThisWeekStamp_def Let_def split: prod.splits)
next
  show "WeekDay (thisWeekSunday now) = 0"
    by (rule WeekDay_Sunday)
next
  show "thisWeekSunday now = now + ((7 - WeekDay now) mod 7) * msPerDay"
    by (rule thisWeekSunday_eq)
next
  assume "WeekDay now = 0"
  then show "thisWeekSunday now = now"
    by (simp add: thisWeekSunday_eq)
next
  assume w: "WeekDay now \<noteq> 0"
  have r: "0 \<le> WeekDay now" "WeekDay now < 7"
    by (simp_all add: WeekDay_def)
  with w have "0 \<le> 7 - WeekDay now" "7 - WeekDay now < 7"
    by simp_all
  then have "(7 - WeekDay now) mod 7 = 7 - WeekDay now"
    by (rule mod_pos_pos_trivial)
  with w r show "Day now < Day (thisWeekSunday now)"
    and "Day (thisWeekSunday now) \<le> Day now + 6"
    by (simp_all add: Day_thisWeekSunday)
qed

theorem week_stamp_sunday_witness:
  "calcThisWeekStamp 1704067200000 =
     \<lparr>sundayStr = js ''2024-01-07'', isoYear = 2024, isoWeek = 1, stampText = label_2024_w1\<rparr> \<and>
   WeekDay 1704067200000 = 1 \<and>
   calcThisWeekStamp 1735603200000 =
     \<lparr>sundayStr = js ''2025-01-05'', isoYear = 2025, isoWeek = 1, stampText = label_2025_w1\<rparr> \<and>
   WeekDay 1735603200000 = 2 \<and>
   Day 1704067200000 < Day (thisWeekSunday 1704067200000) \<and>
   Day (thisWeekSunday 1704067200000) \<le> Day 1704067200000 + 6 \<and>
   WeekDay 1704585600000 = 0 \<and>
   thisWeekSunday 1704585600000 = 1704585600000"
proof -
  have m: "WeekDay 1704067200000 \<noteq> 0"
    by (simp add: WeekDay_def Day_def msPerDay_def)
  have s: "WeekDay 1704585600000 = 0"
    by (simp add: WeekDay_def Day_def msPerDay_def)
  have a: "1704067200000 \<le> (1704067200000 :: int) \<and> (1704067200000 :: int) < 1704153600000"
    by simp
  have b: "1735603200000 \<le> (1735603200000 :: int) \<and> (1735603200000 :: int) < 1735689600000"
    by simp
  note monday = week_stamp_sunday [of 1704067200000 1735603200000 1704067200000]
  note sunday = week_stamp_sunday [of 1704067200000 1735603200000 1704585600000]
  from monday a have "calcThisWeekStamp 1704067200000 =
     \<lparr>sundayStr = js ''2024-01-07'', isoYear = 2024, isoWeek = 1, stampText = label_2024_w1\<rparr> \<and>
     WeekDay 1704067200000 = 1"
    by blast
  moreover from monday b have "calcThisWeekStamp 1735603200000 =
     \<lparr>sundayStr = js ''2025-01-05'', isoYear = 2025, isoWeek = 1, stampText = label_2025_w1\<rparr> \<and>
     WeekDay 1735603200000 = 2"
    by blast
  moreover from monday m have "Day 1704067200000 < Day (thisWeekSunday 1704067200000) \<and>
     Day (thisWeekSunday 1704067200000) \<le> Day 1704067200000 + 6"
    by blast
  moreover from sunday s have "thisWeekSunday 1704585600000 = 1704585600000"
    by blast
  ultimately show ?thesis
    using s by blast
qed

section \<open>The service calls\<close>

text \<open>
  C2. The spec: when the README exists and its marker line already equals the computed
  label, the updater makes no write request and returns Skipped. The code compares the
  patched text with the original, but the patched text always differs (it has more line
  feeds): whenever the README is fetched and decoded, the updater goes on to send the
  write request, and it never returns \<open>false\<close>. The example is a README whose last line
  is the label of the week: the updater writes it back with one more line feed and
  reports an update.
\<close>

theorem updater_writes_existing_readme:
  assumes "fetch P log (GetReadme token owner repo) = Inr res"
    and "res_status res \<noteq> 404" and "res_ok res" and "json_readme res = Inr rd"
    and "fromBase64 P (readme_content rd) = Inr d"
    and "encodeURIComponent P (readme_path rd) = Inr path"
    and "toBase64 P (applyStamp d (stampText st)) = Inr c"
  shows "snd (updateReadmeForRepo P token owner repo st log) =
           log @ [GetReadme token owner repo,
                  PutContents token owner repo path (commit_message st) c (readme_sha rd)] \<and>
         fst (updateReadmeForRepo P token owner repo st log) \<noteq> Inr False"
  unfolding updater_writes [OF assms] by (simp split: sum.splits)

theorem updater_writes_existing_readme_witness:
  "stampText stamp_2024_w1 = label_2024_w1 \<and>
   lines_of readme_stamped = [js ''line1'', label_2024_w1, []] \<and>
   fromBase64 (example_platform readme_stamped_b64) readme_stamped_b64 = Inr readme_stamped \<and>
   updateReadmeForRepo (example_platform readme_stamped_b64) example_token (js ''octo'')
       (js ''alpha'') stamp_2024_w1 [] =
     (Inr True,
      [GetReadme example_token (js ''octo'') (js ''alpha''),
       PutContents example_token (js ''octo'') (js ''alpha'') (js ''README.md'') example_message
         stamped_new_b64 (js ''3b18e5'')])"
proof -
  let ?P = "example_platform readme_stamped_b64"
  let ?res = "ok_json (Readme \<lparr>readme_sha = js ''3b18e5'', readme_path = js ''README.md'',
    readme_content = readme_stamped_b64\<rparr>)"
  let ?rd = "\<lparr>readme_sha = js ''3b18e5'', readme_path = js ''README.md'',
    readme_content = readme_stamped_b64\<rparr>"
  have 1: "fetch ?P [] (GetReadme example_token (js ''octo'') (js ''alpha'')) = Inr ?res"
    by (simp add: example_platform_def example_fetch_def names_distinct)
  have 2: "res_status ?res \<noteq> 404" and 3: "res_ok ?res" and 4: "json_readme ?res = Inr ?rd"
    by (simp_all add: ok_json_def res_ok_def json_readme_def)
  have 5: "fromBase64 ?P (readme_content ?rd) = Inr readme_stamped"
    by (simp add: fromBase64_stamped)
  have 6: "encodeURIComponent ?P (readme_path ?rd) = Inr (js ''README.md'')"
    by (simp add: example_platform_def)
  have 7: "toBase64 ?P (applyStamp readme_stamped (stampText stamp_2024_w1)) =
      Inr stamped_new_b64"
    using toBase64_stamped_new [of readme_stamped_b64]
    by (simp add: stamp_2024_w1_def applyStamp_readme_stamped stamped_new_def)
  have r: "updateReadmeForRepo ?P example_token (js ''octo'') (js ''alpha'') stamp_2024_w1 [] =
     (Inr True,
      [GetReadme example_token (js ''octo'') (js ''alpha''),
       PutContents example_token (js ''octo'') (js ''alpha'') (js ''README.md'') example_message
         stamped_new_b64 (js ''3b18e5'')])"
    using updater_example [OF names_distinct(1) fromBase64_stamped,
        of stamped_new_b64 example_token "js ''octo''" "[]"] 7
    by (simp add: stamp_2024_w1_def names_distinct)
  have w: "snd (updateReadmeForRepo ?P example_token (js ''octo'') (js ''alpha'') stamp_2024_w1 []) =
      [] @ [GetReadme example_token (js ''octo'') (js ''alpha''),
            PutContents example_token (js ''octo'') (js ''alpha'') (js ''README.md'')
              (commit_message stamp_2024_w1) stamped_new_b64 (readme_sha ?rd)] \<and>
      fst (updateReadmeForRepo ?P example_token (js ''octo'') (js ''alpha'') stamp_2024_w1 []) \<noteq>
        Inr False"
    by (rule updater_writes_existing_readme [OF 1 2 3 4 5 6 7])
  show ?thesis
    using r w by (simp add: stamp_2024_w1_def lines_readme_stamped fromBase64_stamped)
qed

text \<open>
  C9. With a token and a listing that succeeds, the orchestrator returns a summary (it
  does not throw and it ends), with one entry for each listed repository, in the order of
  the listing; each entry is made from the result of the updater for that repository, and
  it is an error entry exactly when that updater threw. In the example the write to the
  second of three repositories is refused with a conflict: the summary has three entries,
  the first an update, the second the error, the third a skip.
\<close>

theorem updateAllRepos_summary:
  assumes "GITHUB_TOKEN env = Some token" and "token \<noteq> []"
    and "fetchAllRepos P token [] = Some (Inr repos, log)"
  shows "\<exists>summary log'.
     updateAllRepos P now env =
       Some (Inr \<lparr>run_stampInfo = calcThisWeekStamp now, run_summary = summary\<rparr>, log') \<and>
     length summary = length repos \<and>
     map entry_repo summary = map (\<lambda>r. repo_owner_login r @ js ''/'' @ repo_name r) repos \<and>
     summary = map2 entry_for repos (updater_results P token (calcThisWeekStamp now) repos log) \<and>
     (\<forall>i < length repos.
        (entry_status (summary ! i) = js ''error'') =
        isl (updater_results P token (calcThisWeekStamp now) repos log ! i))"
proof -
  define results where "results = updater_results P token (calcThisWeekStamp now) repos log"
  define summary where "summary = map2 entry_for repos results"
  have len: "length results = length repos"
    by (simp add: results_def length_updater_results)
  have run: "updateAllRepos P now env =
      Some (Inr \<lparr>run_stampInfo = calcThisWeekStamp now, run_summary = summary\<rparr>,
            snd (update_loop P token (calcThisWeekStamp now) repos [] log))"
    unfolding summary_def results_def using assms by (rule updateAllRepos_run)
  have l: "length summary = length repos"
    by (simp add: summary_def len)
  have nth: "summary ! i = entry_for (repos ! i) (results ! i)" if "i < length repos" for i
    using that len by (simp add: summary_def)
  have names: "map entry_repo summary = map (\<lambda>r. repo_owner_login r @ js ''/'' @ repo_name r) repos"
    using l by (intro nth_equalityI) (simp_all add: nth entry_for_repo)
  have errs: "\<forall>i < length repos. (entry_status (summary ! i) = js ''error'') = isl (results ! i)"
    by (simp add: nth entry_for_error)
  show ?thesis
    using run l names errs unfolding summary_def results_def by blast
qed

theorem updateAllRepos_summary_witness:
  "GITHUB_TOKEN example_env = Some example_token \<and> example_token \<noteq> [] \<and>
   fetchAllRepos (example_platform readme_plain_b64) example_token [] =
     Some (Inr [repo_alpha, repo_beta, repo_gamma], [ListRepos example_token 100 1]) \<and>
   (\<exists>log'. updateAllRepos (example_platform readme_plain_b64) 1704067200000 example_env =
      Some (Inr \<lparr>run_stampInfo = stamp_2024_w1,
                  run_summary =
                    [\<lparr>entry_repo = js ''octo/alpha'', entry_status = js ''updated'',
                      entry_error = None\<rparr>,
                     \<lparr>entry_repo = js ''octo/beta'', entry_status = js ''error'',
                      entry_error =
                        Some (js ''Error: '' @ MSG_UPDATE_FAILED @ js ''409 conflict'')\<rparr>,
                     \<lparr>entry_repo = js ''octo/gamma'', entry_status = js ''skipped'',
                      entry_error = None\<rparr>]\<rparr>,
            log'))"
proof -
  have t: "GITHUB_TOKEN example_env = Some example_token"
    by (simp add: example_env_def)
  have ne: "example_token \<noteq> []"
    by (simp add: example_token_def js_def)
  have ls: "fetchAllRepos (example_platform readme_plain_b64) example_token [] =
     Some (Inr [repo_alpha, repo_beta, repo_gamma], [ListRepos example_token 100 1])"
    by (rule example_listing)
  have st: "calcThisWeekStamp 1704067200000 = stamp_2024_w1"
    by (simp add: stamp_2024 stamp_2024_w1_def)
  from updateAllRepos_summary [OF t ne ls, of 1704067200000]
  obtain summary log' where
    run: "updateAllRepos (example_platform readme_plain_b64) 1704067200000 example_env =
       Some (Inr \<lparr>run_stampInfo = calcThisWeekStamp 1704067200000, run_summary = summary\<rparr>,
             log')"
    and s: "summary = map2 entry_for [repo_alpha, repo_beta, repo_gamma]
        (updater_results (example_platform readme_plain_b64) example_token
           (calcThisWeekStamp 1704067200000) [repo_alpha, repo_beta, repo_gamma]
           [ListRepos example_token 100 1])"
    by blast
  have "summary =
      [\<lparr>entry_repo = js ''octo/alpha'', entry_status = js ''updated'', entry_error = None\<rparr>,
       \<lparr>entry_repo = js ''octo/beta'', entry_status = js ''error'',
        entry_error = Some (js ''Error: '' @ MSG_UPDATE_FAILED @ js ''409 conflict'')\<rparr>,
       \<lparr>entry_repo = js ''octo/gamma'', entry_status = js ''skipped'', entry_error = None\<rparr>]"
    unfolding s st example_results
    by (simp add: entry_for_def summary_of_def repo_alpha_def repo_beta_def repo_gamma_def js_def)
  with run st t ne ls show ?thesis
    by simp
qed

text \<open>
  C10. When the pages 1 to \<open>k - 1\<close> are full (the page size or more items) and page \<open>k\<close>
  is short, the lister requests exactly the pages 1 to \<open>k\<close>, in order and with the fixed
  page size, and returns the items of these pages in that order. When page \<open>k\<close> is instead
  answered with a status that is not ok, it requests the same pages and throws an error
  made of the status and the body of that answer; no list is returned.
\<close>

theorem fetchAllRepos_pagination:
  assumes "1 \<le> k" and "\<forall>p. 1 \<le> p \<and> p < k \<longrightarrow> full_page (page_response P token log p)"
  shows "(short_page (page_response P token log k) \<longrightarrow>
            fetchAllRepos P token log =
              Some (Inr (concat (map (\<lambda>p. page_batch (page_response P token log p)) [1..<Suc k])),
                    log @ list_requests token k)) \<and>
         (failed_page (page_response P token log k) \<longrightarrow>
            (\<exists>res. page_response P token log k = Inr res \<and>
               fetchAllRepos P token log =
                 Some (Inl (Error (MSG_LIST_FAILED @ String_int (int (res_status res)) @
                                   js '' '' @ res_text res)),
                       log @ list_requests token k)))"
proof (intro conjI impI)
  assume s: "short_page (page_response P token log k)"
  have "fetchAllRepos_loop P token k
          (concat (map (\<lambda>q. page_batch (page_response P token log q)) [1..<k]))
          (log @ list_requests token (k - 1)) =
        Some (Inr (concat (map (\<lambda>q. page_batch (page_response P token log q)) [1..<k]) @
                   page_batch (page_response P token log k)),
              (log @ list_requests token (k - 1)) @ [ListRepos token perPage k])"
    using s unfolding page_response_def by (rule loop_short)
  then show "fetchAllRepos P token log =
      Some (Inr (concat (map (\<lambda>p. page_batch (page_response P token log p)) [1..<Suc k])),
            log @ list_requests token k)"
    using assms list_requests_Suc [of k token] by (simp add: fetchAllRepos_pages)
next
  assume f: "failed_page (page_response P token log k)"
  then obtain res where res: "page_response P token log k = Inr res"
    by (cases "page_response P token log k") (simp_all add: failed_page_def)
  have "fetchAllRepos_loop P token k
          (concat (map (\<lambda>q. page_batch (page_response P token log q)) [1..<k]))
          (log @ list_requests token (k - 1)) =
        Some (Inl (page_error (page_response P token log k)),
              (log @ list_requests token (k - 1)) @ [ListRepos token perPage k])"
    using f unfolding page_response_def by (rule loop_failed)
  then have "fetchAllRepos P token log =
      Some (Inl (Error (MSG_LIST_FAILED @ String_int (int (res_status res)) @
                        js '' '' @ res_text res)),
            log @ list_requests token k)"
    using assms list_requests_Suc [of k token]
    by (simp add: fetchAllRepos_pages res page_error_def http_error_def)
  with res show "\<exists>res. page_response P token log k = Inr res \<and>
      fetchAllRepos P token log =
        Some (Inl (Error (MSG_LIST_FAILED @ String_int (int (res_status res)) @
                          js '' '' @ res_text res)),
              log @ list_requests token k)"
    by blast
qed

theorem fetchAllRepos_pagination_witness:
  "fetchAllRepos paged_platform example_token [] =
     Some (Inr (replicate 100 repo_alpha @ [repo_beta]),
           [ListRepos example_token 100 1, ListRepos example_token 100 2]) \<and>
   fetchAllRepos failing_platform example_token [] =
     Some (Inl (Error (MSG_LIST_FAILED @ js ''500'' @ js '' '' @ js ''Server Error'')),
           [ListRepos example_token 100 1])"
proof
  have one: "(1::nat) \<le> 2" by simp
  have first: "full_page (page_response paged_platform example_token [] 1)"
    unfolding paged_page_1
    by (simp add: full_page_def ok_json_def res_ok_def json_repos_def perPage_def)
  have full: "\<forall>p. 1 \<le> p \<and> p < 2 \<longrightarrow> full_page (page_response paged_platform example_token [] p)"
  proof (intro allI impI)
    fix p :: nat
    assume "1 \<le> p \<and> p < 2"
    then have "p = 1" by simp
    with first show "full_page (page_response paged_platform example_token [] p)"
      by blast
  qed
  have short: "short_page (page_response paged_platform example_token [] 2)"
    by (simp add: paged_page_2 short_page_def ok_json_def res_ok_def json_repos_def perPage_def)
  have "fetchAllRepos paged_platform example_token [] =
      Some (Inr (concat (map (\<lambda>p. page_batch (page_response paged_platform example_token [] p))
                   [1..<Suc 2])),
            [] @ list_requests example_token 2)"
    using fetchAllRepos_pagination [OF one full] short by blast
  moreover have "[1..<Suc 2] = [1, 2]"
    by (simp add: upt_rec)
  moreover have "list_requests example_token 2 =
      [ListRepos example_token 100 1, ListRepos example_token 100 2]"
    by (simp add: list_requests_def perPage_def upt_rec)
  moreover have "page_batch (page_response paged_platform example_token [] 1) =
      replicate 100 repo_alpha"
    unfolding paged_page_1 by (simp add: page_batch_def ok_json_def json_repos_def)
  moreover have "page_batch (page_response paged_platform example_token [] 2) = [repo_beta]"
    unfolding paged_page_2 by (simp add: page_batch_def ok_json_def json_repos_def)
  ultimately show "fetchAllRepos paged_platform example_token [] =
     Some (Inr (replicate 100 repo_alpha @ [repo_beta]),
           [ListRepos example_token 100 1, ListRepos example_token 100 2])"
    by simp
next
  have one: "(1::nat) \<le> 1" by simp
  have full: "\<forall>p. 1 \<le> p \<and> p < 1 \<longrightarrow> full_page (page_response failing_platform example_token [] p)"
    by simp
  have failed: "failed_page (page_response failing_platform example_token [] 1)"
    unfolding failing_page_1 by (simp add: failed_page_def res_ok_def)
  from fetchAllRepos_pagination [OF one full] failed
  obtain res where r1: "page_response failing_platform example_token [] 1 = Inr res"
    and r2: "fetchAllRepos failing_platform example_token [] =
           Some (Inl (Error (MSG_LIST_FAILED @ String_int (int (res_status res)) @
                             js '' '' @ res_text res)),
                 [] @ list_requests example_token 1)"
    by blast
  have "res = \<lparr>res_status = 500, res_text = js ''Server Error'', res_json = Inr OtherJson\<rparr>"
    using r1 unfolding failing_page_1 by simp
  then have "res_status res = 500" "res_text res = js ''Server Error''"
    by simp_all
  moreover have "list_requests example_token 1 = [ListRepos example_token 100 1]"
    by (simp add: list_requests_def perPage_def)
  ultimately show "fetchAllRepos failing_platform example_token [] =
     Some (Inl (Error (MSG_LIST_FAILED @ js ''500'' @ js '' '' @ js ''Server Error'')),
           [ListRepos example_token 100 1])"
    using r2 by (simp add: String_int_500)
qed

end
